theory Spec2Isabelle
  imports Main "HOL-Library.Word" "HOL-Library.Signed_Division" "HOL-Library.AList"
    "HOL-Library.Sublist"
begin

unbundle bit_operations_syntax

section \<open>Go values: machine integers, failures, byte slices\<close>

text \<open>
  The package \<open>file\<close> of the repository is embedded function by function. Go's \<open>int\<close>
  is taken at its width on the 64-bit targets (amd64, arm64): a two's-complement 64-bit
  word whose arithmetic wraps around; \<open>sint\<close> reads its value and \<open><s\<close>, \<open>\<le>s\<close> are the
  signed comparisons of the source. \<open>uint32\<close> is a 32-bit word, \<open>byte\<close> an 8-bit one.
  The conversion \<open>uint32(v)\<close> from \<open>int\<close> keeps the low 32 bits (\<open>ucast\<close> downwards) and
  \<open>int(u)\<close> from \<open>uint32\<close> zero-extends (\<open>ucast\<close> upwards).
\<close>

type_synonym byte = "8 word"
type_synonym uint32 = "32 word"
type_synonym goint = "64 word"

text \<open>
  A Go function of this package ends in one of three ways: it returns its value with a
  nil error, it returns a non-nil error, or a run-time panic unwinds it. The last two are
  the first two constructors of \<open>failure\<close>; a result is \<open>failure + 'a\<close>. The zero value that
  accompanies a non-nil error in Go is not kept. The third constructor, \<open>Outside\<close>, is no
  behaviour of the program: it marks a call that reaches a file which is not among those
  modelled (a path that leaves the database directory), about which nothing is said.
\<close>

datatype go_error =
    ErrorString string      \<comment> \<open>\<open>errors.New(msg)\<close> and \<open>fmt.Errorf\<close>\<close>
  | EOF                     \<comment> \<open>\<open>io.EOF\<close>\<close>
  | ErrUnexpectedEOF        \<comment> \<open>\<open>io.ErrUnexpectedEOF\<close>\<close>
  | PathError string        \<comment> \<open>an error of the operating system, by its name\<close>

datatype failure =
    Err go_error
  | Panic string
  | Outside

type_synonym 'a result = "failure + 'a"

text \<open>
  Byte slices share their backing arrays, and the pages of this package are written in
  place, so the arrays live in an explicit store: the heap is the list of all backing
  arrays allocated so far, an address is an index into it, and a slice is a window
  (array, offset, length, capacity) as in the Go run time. \<open>make\<close> appends a new
  zero-filled array, so the address it returns is fresh.
\<close>

type_synonym addr = nat
type_synonym heap = "byte list list"

record slice =
  arr :: addr
  off :: nat
  slen :: nat
  scap :: nat

definition go_len :: "slice \<Rightarrow> goint" where
  "go_len s = of_nat (slen s)"

definition go_cap :: "slice \<Rightarrow> goint" where
  "go_cap s = of_nat (scap s)"

definition slice_contents :: "heap \<Rightarrow> slice \<Rightarrow> byte list" where
  "slice_contents h s = take (slen s) (drop (off s) (h ! arr s))"

text \<open>\<open>slice_store h s bs\<close> overwrites the elements \<open>s[0 .. length bs)\<close> with \<open>bs\<close>.\<close>

definition slice_store :: "heap \<Rightarrow> slice \<Rightarrow> byte list \<Rightarrow> heap" where
  "slice_store h s bs =
     h[arr s := take (off s) (h ! arr s) @ bs @ drop (off s + length bs) (h ! arr s)]"

text \<open>The slice expression \<open>s[k:]\<close>: it panics unless \<open>0 \<le> k \<le> len(s)\<close>.\<close>

definition slice_from :: "slice \<Rightarrow> goint \<Rightarrow> slice option" where
  "slice_from s k =
     (if 0 \<le>s k \<and> k \<le>s go_len s
      then Some \<lparr>arr = arr s, off = off s + unat k, slen = slen s - unat k,
                  scap = scap s - unat k\<rparr>
      else None)"

text \<open>The slice expression \<open>s[a:b]\<close>: it panics unless \<open>0 \<le> a \<le> b \<le> cap(s)\<close>.\<close>

definition slice_range :: "slice \<Rightarrow> goint \<Rightarrow> goint \<Rightarrow> slice option" where
  "slice_range s a b =
     (if 0 \<le>s a \<and> a \<le>s b \<and> b \<le>s go_cap s
      then Some \<lparr>arr = arr s, off = off s + unat a, slen = unat b - unat a,
                  scap = scap s - unat a\<rparr>
      else None)"

text \<open>\<open>make([]byte, n)\<close>: a new zero-filled array; a negative length panics.\<close>

definition make_bytes :: "heap \<Rightarrow> goint \<Rightarrow> (heap \<times> slice) option" where
  "make_bytes h n =
     (if n <s 0 then None
      else Some (h @ [replicate (unat n) 0],
                 \<lparr>arr = length h, off = 0, slen = unat n, scap = unat n\<rparr>))"

text \<open>
  The built-in \<open>copy(dst, src)\<close> copies \<open>min(len(dst), len(src))\<close> elements, reading the
  source before it writes (overlapping slices are handled as by \<open>memmove\<close>).
\<close>

definition copy_bytes :: "heap \<Rightarrow> slice \<Rightarrow> slice \<Rightarrow> heap" where
  "copy_bytes h dst src =
     slice_store h dst (take (min (slen dst) (slen src)) (slice_contents h src))"

text \<open>
  \<open>binary.BigEndian.Uint32(b)\<close> and \<open>binary.BigEndian.PutUint32(b, v)\<close> of the standard
  library. Both start with the bounds check \<open>_ = b[3]\<close>, which panics on a slice shorter
  than four bytes.
\<close>

definition Uint32 :: "heap \<Rightarrow> slice \<Rightarrow> uint32 option" where
  "Uint32 h b =
     (if slen b < 4 then None
      else let c = slice_contents h b in
        Some (ucast (c ! 3) OR push_bit 8 (ucast (c ! 2)) OR push_bit 16 (ucast (c ! 1))
              OR push_bit 24 (ucast (c ! 0))))"

definition PutUint32 :: "heap \<Rightarrow> slice \<Rightarrow> uint32 \<Rightarrow> heap option" where
  "PutUint32 h b v =
     (if slen b < 4 then None
      else Some (slice_store h b
             [ucast (drop_bit 24 v), ucast (drop_bit 16 v), ucast (drop_bit 8 v), ucast v]))"

text \<open>
  A slice is valid in a heap when its window lies inside an allocated array. Array lengths
  are values of Go's \<open>int\<close>, hence below \<open>2^63\<close>.
\<close>

definition valid_slice :: "heap \<Rightarrow> slice \<Rightarrow> bool" where
  "valid_slice h s \<longleftrightarrow>
     arr s < length h \<and> slen s \<le> scap s \<and> off s + scap s \<le> length (h ! arr s)
     \<and> length (h ! arr s) < 2 ^ 63"

section \<open>Page (page.go)\<close>

record Page =
  buf :: slice

definition NewPage :: "heap \<Rightarrow> goint \<Rightarrow> heap \<times> Page result" where
  "NewPage h blocksize =
     (case make_bytes h blocksize of
        None \<Rightarrow> (h, Inl (Panic ''makeslice: len out of range''))
      | Some (h', s) \<Rightarrow> (h', Inr \<lparr>buf = s\<rparr>))"

definition NewPageFromBytes :: "slice \<Rightarrow> Page" where
  "NewPageFromBytes b = \<lparr>buf = b\<rparr>"

definition Buffer :: "Page \<Rightarrow> slice" where
  "Buffer p = buf p"

definition GetInt :: "heap \<Rightarrow> Page \<Rightarrow> goint \<Rightarrow> goint result" where
  "GetInt h p offset =
     (if go_len (buf p) <s offset + 4 then Inl (Err (ErrorString ''GetInt: out of bounds''))
      else case slice_from (buf p) offset of
        None \<Rightarrow> Inl (Panic ''slice bounds out of range'')
      | Some b \<Rightarrow>
          (case Uint32 h b of
             None \<Rightarrow> Inl (Panic ''index out of range'')
           | Some u \<Rightarrow> Inr (ucast u)))"

definition SetInt :: "heap \<Rightarrow> Page \<Rightarrow> goint \<Rightarrow> goint \<Rightarrow> heap \<times> unit result" where
  "SetInt h p offset v =
     (if go_len (buf p) <s offset + 4 then (h, Inl (Err (ErrorString ''SetInt: out of bounds'')))
      else case slice_from (buf p) offset of
        None \<Rightarrow> (h, Inl (Panic ''slice bounds out of range''))
      | Some b \<Rightarrow>
          (case PutUint32 h b (ucast v) of
             None \<Rightarrow> (h, Inl (Panic ''index out of range''))
           | Some h' \<Rightarrow> (h', Inr ())))"

definition GetBytes :: "heap \<Rightarrow> Page \<Rightarrow> goint \<Rightarrow> heap \<times> slice result" where
  "GetBytes h p offset =
     (if go_len (buf p) <s offset + 4
      then (h, Inl (Err (ErrorString ''GetBytes(len): out of bounds'')))
      else case slice_from (buf p) offset of
        None \<Rightarrow> (h, Inl (Panic ''slice bounds out of range''))
      | Some b \<Rightarrow>
          (case Uint32 h b of
             None \<Rightarrow> (h, Inl (Panic ''index out of range''))
           | Some u \<Rightarrow>
               (let len = (ucast u :: goint);
                    start = offset + 4;
                    end = start + len
                in if go_len (buf p) <s end
                   then (h, Inl (Err (ErrorString ''GetBytes(data): out of bounds'')))
                   else case make_bytes h len of
                     None \<Rightarrow> (h, Inl (Panic ''makeslice: len out of range''))
                   | Some (h1, out) \<Rightarrow>
                       (case slice_range (buf p) start end of
                          None \<Rightarrow> (h1, Inl (Panic ''slice bounds out of range''))
                        | Some src \<Rightarrow> (copy_bytes h1 out src, Inr out)))))"

definition SetBytes :: "heap \<Rightarrow> Page \<Rightarrow> goint \<Rightarrow> slice \<Rightarrow> heap \<times> unit result" where
  "SetBytes h p offset b =
     (if go_len (buf p) <s offset + 4 + go_len b
      then (h, Inl (Err (ErrorString ''SetBytes: out of bounds'')))
      else case slice_from (buf p) offset of
        None \<Rightarrow> (h, Inl (Panic ''slice bounds out of range''))
      | Some hdr \<Rightarrow>
          (case PutUint32 h hdr (ucast (go_len b)) of
             None \<Rightarrow> (h, Inl (Panic ''index out of range''))
           | Some h1 \<Rightarrow>
               (case slice_from (buf p) (offset + 4) of
                  None \<Rightarrow> (h1, Inl (Panic ''slice bounds out of range''))
                | Some dst \<Rightarrow> (copy_bytes h1 dst b, Inr ()))))"

text \<open>
  A Go string is an immutable sequence of bytes, here a \<open>string\<close> (a list of 8-bit
  characters). The conversion \<open>[]byte(s)\<close> allocates a new array holding the bytes of
  \<open>s\<close>; \<open>string(b)\<close> copies the contents of \<open>b\<close> out of the heap. Neither transcodes.
\<close>

definition byte_of_char :: "char \<Rightarrow> byte" where
  "byte_of_char c = of_nat (of_char c)"

definition char_of_byte :: "byte \<Rightarrow> char" where
  "char_of_byte b = char_of (unat b)"

definition bytes_of_string :: "heap \<Rightarrow> string \<Rightarrow> heap \<times> slice" where
  "bytes_of_string h s =
     (h @ [map byte_of_char s], \<lparr>arr = length h, off = 0, slen = length s, scap = length s\<rparr>)"

definition string_of_bytes :: "heap \<Rightarrow> slice \<Rightarrow> string" where
  "string_of_bytes h b = map char_of_byte (slice_contents h b)"

definition GetString :: "heap \<Rightarrow> Page \<Rightarrow> goint \<Rightarrow> heap \<times> string result" where
  "GetString h p offset =
     (case GetBytes h p offset of
        (h', Inl err) \<Rightarrow> (h', Inl err)
      | (h', Inr b) \<Rightarrow> (h', Inr (string_of_bytes h' b)))"

definition SetString :: "heap \<Rightarrow> Page \<Rightarrow> goint \<Rightarrow> string \<Rightarrow> heap \<times> unit result" where
  "SetString h p offset s =
     (case bytes_of_string h s of (h', b) \<Rightarrow> SetBytes h' p offset b)"

definition bytesPerChar :: goint where
  "bytesPerChar = 1"

definition MaxLength :: "goint \<Rightarrow> goint" where
  "MaxLength strlen = 4 + strlen * bytesPerChar"

section \<open>BlockId (block_id.go)\<close>

record BlockId =
  filename :: string
  blknum :: goint

definition NewBlockId :: "string \<Rightarrow> goint \<Rightarrow> BlockId" where
  "NewBlockId fname n = \<lparr>filename = fname, blknum = n\<rparr>"

definition FileName :: "BlockId \<Rightarrow> string" where
  "FileName b = filename b"

definition Number :: "BlockId \<Rightarrow> goint" where
  "Number b = blknum b"

text \<open>The display form \<open>String\<close> prints the two fields; nothing below depends on it, and
  it is left out.\<close>

section \<open>The operating system's files\<close>

text \<open>
  What the package asks of the operating system is modelled on an in-memory directory tree.
  A directory is a list of named entries, each a regular file with its bytes or a
  subdirectory; the tree that is modelled is the database directory with everything below
  it. Paths are those of Unix: \<open>/\<close> separates the components. File sizes and offsets are
  \<open>int64\<close> for the operating system, so a write that would end beyond \<open>2^63 - 1\<close> is
  refused. Failures of the environment that depend on nothing in the program (permissions,
  a full or failing disk, symbolic links, the limits of a file system on the length of a
  name) are outside the model: \<open>Sync\<close> and \<open>MkdirAll\<close> succeed, and so does every call
  whose arguments are in range. \<open>os.ReadDir\<close> lists the entries in the order of the list;
  the loop that consumes it does not depend on the order.
\<close>

datatype node =
    File "byte list"
  | Dir "(string \<times> node) list"

type_synonym directory = "(string \<times> node) list"

subsection \<open>Paths (\<open>path/filepath\<close>)\<close>

text \<open>
  \<open>path_elems\<close> cuts a string at every \<open>/\<close>; \<open>path_string\<close> puts the components of a
  path back together.
\<close>

fun path_elems :: "string \<Rightarrow> string list" where
  "path_elems [] = [[]]"
| "path_elems (c # cs) =
     (if c = CHR ''/'' then [] # path_elems cs
      else (case path_elems cs of
              [] \<Rightarrow> [[c]]
            | e # es \<Rightarrow> (c # e) # es))"

fun path_string :: "string list \<Rightarrow> string" where
  "path_string [] = []"
| "path_string [e] = e"
| "path_string (e # e' # es) = e @ ''/'' @ path_string (e' # es)"

text \<open>
  \<open>filepath.Clean\<close> works on the text of a path alone. It drops empty components and
  \<open>.\<close>, lets \<open>..\<close> cancel the component before it, drops a \<open>..\<close> that would climb above the
  root of a rooted path, and keeps, in front, those of a relative path that have nothing to
  cancel. A cleaned path is kept as its three parts: whether it is rooted, how many \<open>..\<close>
  it starts with, and the named components that follow. \<open>.\<close> is the relative path with no
  climb and no component.
\<close>

record path =
  rooted :: bool
  climbs :: nat
  elems :: "string list"

fun clean_elems :: "bool \<Rightarrow> nat \<Rightarrow> string list \<Rightarrow> string list \<Rightarrow> nat \<times> string list" where
  "clean_elems r up acc [] = (up, acc)"
| "clean_elems r up acc (e # es) =
     (if e = [] \<or> e = ''.'' then clean_elems r up acc es
      else if e = ''..'' then
        (if acc \<noteq> [] then clean_elems r up (butlast acc) es
         else if r then clean_elems r up acc es
         else clean_elems r (Suc up) acc es)
      else clean_elems r up (acc @ [e]) es)"

definition filepath_Clean :: "string \<Rightarrow> path" where
  "filepath_Clean s =
     (let r = (s \<noteq> [] \<and> hd s = CHR ''/'') in
      case clean_elems r 0 [] (path_elems s) of
        (up, es) \<Rightarrow> \<lparr>rooted = r, climbs = up, elems = es\<rparr>)"

text \<open>
  \<open>filepath.Join(a, b)\<close> skips the arguments that are empty until the first that is not,
  joins what is left with separators and cleans the result; when both are empty it returns
  the empty string, here \<open>None\<close>.
\<close>

definition filepath_Join :: "string \<Rightarrow> string \<Rightarrow> path option" where
  "filepath_Join a b =
     (if a = [] then (if b = [] then None else Some (filepath_Clean b))
      else Some (filepath_Clean (a @ ''/'' @ b)))"

subsection \<open>Files\<close>

text \<open>
  An open file (\<open>*os.File\<close>): the file it was opened on, as its path below the database
  directory, and its read/write cursor.
\<close>

record os_file =
  fname :: string
  pos :: nat

text \<open>
  Opening with \<open>os.O_RDWR|os.O_CREATE\<close> the path \<open>es\<close> below a directory: the file is made,
  empty, when only its last component is missing; a directory cannot be opened for
  writing, and the components before the last must be directories that exist.
\<close>

fun open_at :: "directory \<Rightarrow> string list \<Rightarrow> directory \<times> unit result" where
  "open_at d [] = (d, Inl (Err (PathError ''is a directory'')))"
| "open_at d [e] =
     (case map_of d e of
        None \<Rightarrow> (d @ [(e, File [])], Inr ())
      | Some (File c) \<Rightarrow> (d, Inr ())
      | Some (Dir sub) \<Rightarrow> (d, Inl (Err (PathError ''is a directory''))))"
| "open_at d (e # e' # es) =
     (case map_of d e of
        None \<Rightarrow> (d, Inl (Err (PathError ''no such file or directory'')))
      | Some (File c) \<Rightarrow> (d, Inl (Err (PathError ''not a directory'')))
      | Some (Dir sub) \<Rightarrow>
          (case open_at sub (e' # es) of
             (sub', r) \<Rightarrow> (AList.update e (Dir sub') d, r)))"

text \<open>The bytes of the regular file at a path below a directory, and their replacement.\<close>

fun file_at :: "directory \<Rightarrow> string list \<Rightarrow> byte list option" where
  "file_at d [] = None"
| "file_at d [e] = (case map_of d e of Some (File c) \<Rightarrow> Some c | _ \<Rightarrow> None)"
| "file_at d (e # e' # es) =
     (case map_of d e of Some (Dir sub) \<Rightarrow> file_at sub (e' # es) | _ \<Rightarrow> None)"

fun store_at :: "directory \<Rightarrow> string list \<Rightarrow> byte list \<Rightarrow> directory" where
  "store_at d [] c = d"
| "store_at d [e] c = AList.update e (File c) d"
| "store_at d (e # e' # es) c =
     (case map_of d e of
        Some (Dir sub) \<Rightarrow> AList.update e (Dir (store_at sub (e' # es) c)) d
      | _ \<Rightarrow> d)"

text \<open>
  \<open>os.OpenFile(path, os.O_RDWR|os.O_CREATE, 0o644)\<close>, where \<open>d\<close> is the directory at the
  cleaned path \<open>at\<close> and \<open>path\<close> is the result of \<open>filepath.Join\<close>. The empty string names
  nothing. A path that is \<open>at\<close> followed by more components is looked up below \<open>d\<close>; a
  component with a NUL byte is an invalid argument for the system call (the components of
  \<open>at\<close> have none: the directory is there). A path with no named component (\<open>.\<close>, \<open>..\<close>,
  \<open>/\<close>) and a path that \<open>at\<close> continues are directories. Any other path leaves the database
  directory.
\<close>

definition os_OpenFile :: "directory \<Rightarrow> path \<Rightarrow> path option \<Rightarrow> directory \<times> os_file result"
  where
  "os_OpenFile d at path =
     (case path of
        None \<Rightarrow> (d, Inl (Err (PathError ''no such file or directory'')))
      | Some p \<Rightarrow>
          (if rooted p = rooted at \<and> climbs p = climbs at \<and> prefix (elems at) (elems p)
           then let rel = drop (length (elems at)) (elems p) in
                if list_ex (\<lambda>e. CHR 0x00 \<in> set e) rel
                then (d, Inl (Err (PathError ''invalid argument'')))
                else (case open_at d rel of
                        (d', Inl e) \<Rightarrow> (d', Inl e)
                      | (d', Inr u) \<Rightarrow> (d', Inr \<lparr>fname = path_string rel, pos = 0\<rparr>))
           else if elems p = []
                   \<or> rooted p = rooted at \<and> climbs p = climbs at \<and> prefix (elems p) (elems at)
           then (d, Inl (Err (PathError ''is a directory'')))
           else (d, Inl Outside)))"

text \<open>\<open>f.Stat()\<close> followed by \<open>fi.Size()\<close>.\<close>

definition file_Size :: "directory \<Rightarrow> os_file \<Rightarrow> goint result" where
  "file_Size d f =
     (case file_at d (path_elems (fname f)) of
        Some c \<Rightarrow> Inr (of_nat (length c))
      | None \<Rightarrow> Inl (Err (PathError ''stat failed'')))"

text \<open>\<open>f.Seek(offset, io.SeekStart)\<close>: a negative position is an invalid argument.\<close>

definition file_Seek :: "os_file \<Rightarrow> goint \<Rightarrow> os_file result" where
  "file_Seek f offset =
     (if offset <s 0 then Inl (Err (PathError ''invalid argument''))
      else Inr (f\<lparr>pos := unat offset\<rparr>))"

text \<open>
  \<open>io.ReadFull(f, b)\<close> reads into \<open>b\<close> until it is full or the file ends. The bytes that
  were available are already in \<open>b\<close> when it reports \<open>io.EOF\<close> (nothing was read) or
  \<open>io.ErrUnexpectedEOF\<close> (some but not all).
\<close>

definition io_ReadFull :: "directory \<Rightarrow> heap \<Rightarrow> os_file \<Rightarrow> slice \<Rightarrow> heap \<times> os_file \<times> unit result"
  where
  "io_ReadFull d h f b =
     (case file_at d (path_elems (fname f)) of
        Some c \<Rightarrow>
          (let avail = take (slen b) (drop (pos f) c);
               n = length avail;
               h' = slice_store h b avail;
               f' = f\<lparr>pos := pos f + n\<rparr>
           in if slen b \<le> n then (h', f', Inr ())
              else if n = 0 then (h', f', Inl (Err EOF))
              else (h', f', Inl (Err ErrUnexpectedEOF)))
      | None \<Rightarrow> (h, f, Inl (Err (PathError ''read failed''))))"

text \<open>
  Writing \<open>bs\<close> at position \<open>p\<close> of a file: the bytes between the old end of the file and
  \<open>p\<close>, if any, read as zero afterwards.
\<close>

definition write_at :: "byte list \<Rightarrow> nat \<Rightarrow> byte list \<Rightarrow> byte list" where
  "write_at c p bs = take p c @ replicate (p - length c) 0 @ bs @ drop (p + length bs) c"

definition os_pwrite :: "directory \<Rightarrow> string \<Rightarrow> nat \<Rightarrow> byte list \<Rightarrow> directory \<times> unit result" where
  "os_pwrite d name p bs =
     (case file_at d (path_elems name) of
        Some c \<Rightarrow>
          (if bs = [] then (d, Inr ())
           else if 2 ^ 63 \<le> p + length bs then (d, Inl (Err (PathError ''file too large'')))
           else (store_at d (path_elems name) (write_at c p bs), Inr ()))
      | None \<Rightarrow> (d, Inl (Err (PathError ''write failed''))))"

text \<open>\<open>f.Write(b)\<close> writes at the cursor and advances it.\<close>

definition file_Write :: "directory \<Rightarrow> os_file \<Rightarrow> byte list \<Rightarrow> directory \<times> os_file \<times> unit result"
  where
  "file_Write d f bs =
     (case os_pwrite d (fname f) (pos f) bs of
        (d', Inl e) \<Rightarrow> (d', f, Inl e)
      | (d', Inr u) \<Rightarrow> (d', f\<lparr>pos := pos f + length bs\<rparr>, Inr ()))"

text \<open>\<open>f.WriteAt(b, off)\<close> refuses a negative offset and leaves the cursor alone.\<close>

definition file_WriteAt :: "directory \<Rightarrow> os_file \<Rightarrow> byte list \<Rightarrow> goint \<Rightarrow> directory \<times> unit result"
  where
  "file_WriteAt d f bs offset =
     (if offset <s 0 then (d, Inl (Err (PathError ''negative offset'')))
      else os_pwrite d (fname f) (unat offset) bs)"

text \<open>\<open>f.Sync()\<close> flushes the file to the disk. Durability across a crash is not modelled,
  so it changes nothing and succeeds.\<close>

definition file_Sync :: "os_file \<Rightarrow> unit result" where
  "file_Sync f = Inr ()"

text \<open>\<open>os.Remove\<close> on an entry of the directory, by the name that \<open>os.ReadDir\<close> gave:
  it removes a file or an empty directory and fails on anything else.\<close>

definition os_Remove :: "directory \<Rightarrow> string \<Rightarrow> directory \<times> unit result" where
  "os_Remove d name =
     (case map_of d name of
        None \<Rightarrow> (d, Inl (Err (PathError ''no such file or directory'')))
      | Some (File c) \<Rightarrow> (AList.delete name d, Inr ())
      | Some (Dir es) \<Rightarrow>
          (if es = [] then (AList.delete name d, Inr ())
           else (d, Inl (Err (PathError ''directory not empty'')))))"

text \<open>\<open>os.ReadDir\<close> lists the names of the entries.\<close>

definition os_ReadDir :: "directory \<Rightarrow> string list" where
  "os_ReadDir d = map fst d"

text \<open>Go's \<open>/\<close> on \<open>int64\<close> truncates towards zero; the caller checks the divisor first.\<close>

definition go_div :: "goint \<Rightarrow> goint \<Rightarrow> goint" where
  "go_div a b = word_of_int (sint a sdiv sint b)"

section \<open>FileMgr (filemgr.go)\<close>

text \<open>
  The mutex field orders concurrent callers and has no counterpart here: each operation
  is one atomic step from a state to the next. The file manager's state is the record
  below (the table of open files is the Go map, its values the open files with their
  cursors) together with the entries of the database directory.
\<close>

record FileMgr =
  dbDirectory :: string
  blocksize :: goint
  isNew :: bool
  openFiles :: "string \<rightharpoonup> os_file"

text \<open>The loop of \<open>NewFileMgr\<close> over the entries read from the directory.\<close>

fun remove_temps :: "directory \<Rightarrow> string list \<Rightarrow> directory" where
  "remove_temps d [] = d"
| "remove_temps d (e # es) =
     remove_temps (if prefix ''temp'' e then fst (os_Remove d e) else d) es"

text \<open>
  \<open>NewFileMgr\<close> sees what \<open>os.Stat\<close> finds at the path: nothing, a plain file, or a
  directory. It returns what is at the path afterwards.
\<close>

definition NewFileMgr :: "node option \<Rightarrow> string \<Rightarrow> goint \<Rightarrow> node option \<times> FileMgr result" where
  "NewFileMgr at_path dir bsize =
     (case at_path of
        Some (File c) \<Rightarrow>
          (at_path, Inl (Err (ErrorString (dir @ '' exists and is not a directory''))))
      | None \<Rightarrow>
          (Some (Dir (remove_temps [] (os_ReadDir []))),
           Inr \<lparr>dbDirectory = dir, blocksize = bsize, isNew = True, openFiles = Map.empty\<rparr>)
      | Some (Dir entries) \<Rightarrow>
          (Some (Dir (remove_temps entries (os_ReadDir entries))),
           Inr \<lparr>dbDirectory = dir, blocksize = bsize, isNew = False, openFiles = Map.empty\<rparr>))"

definition IsNew :: "FileMgr \<Rightarrow> bool" where
  "IsNew fm = isNew fm"

definition BlockSize :: "FileMgr \<Rightarrow> goint" where
  "BlockSize fm = blocksize fm"

text \<open>
  \<open>getFile\<close> looks the file name up in the table and otherwise opens
  \<open>filepath.Join(fm.dbDirectory, filename)\<close>. The directory \<open>d\<close> of the state is the one
  that the path \<open>dbDirectory\<close> names, so it is at \<open>filepath.Clean(dbDirectory)\<close>. The name
  is not checked in any way before it is joined.
\<close>

definition getFile :: "FileMgr \<Rightarrow> directory \<Rightarrow> string \<Rightarrow> FileMgr \<times> directory \<times> os_file result"
  where
  "getFile fm d name =
     (case openFiles fm name of
        Some f \<Rightarrow> (fm, d, Inr f)
      | None \<Rightarrow>
          (case os_OpenFile d (filepath_Clean (dbDirectory fm))
                  (filepath_Join (dbDirectory fm) name) of
             (d', Inl e) \<Rightarrow> (fm, d', Inl e)
           | (d', Inr f) \<Rightarrow> (fm\<lparr>openFiles := (openFiles fm)(name \<mapsto> f)\<rparr>, d', Inr f)))"

definition Length :: "FileMgr \<Rightarrow> directory \<Rightarrow> string \<Rightarrow> FileMgr \<times> directory \<times> goint result"
  where
  "Length fm d name =
     (case getFile fm d name of
        (fm1, d1, Inl e) \<Rightarrow> (fm1, d1, Inl e)
      | (fm1, d1, Inr f) \<Rightarrow>
          (case file_Size d1 f of
             Inl e \<Rightarrow> (fm1, d1, Inl e)
           | Inr sz \<Rightarrow>
               (if blocksize fm1 = 0 then (fm1, d1, Inl (Panic ''integer divide by zero''))
                else (fm1, d1, Inr (go_div sz (blocksize fm1))))))"

definition Read ::
  "FileMgr \<Rightarrow> directory \<Rightarrow> heap \<Rightarrow> BlockId \<Rightarrow> Page \<Rightarrow> FileMgr \<times> directory \<times> heap \<times> unit result"
  where
  "Read fm d h blk p =
     (if go_len (buf p) \<noteq> blocksize fm
      then (fm, d, h, Inl (Err (ErrorString ''Read: page size != blocksize'')))
      else case getFile fm d (FileName blk) of
        (fm1, d1, Inl e) \<Rightarrow> (fm1, d1, h, Inl e)
      | (fm1, d1, Inr f) \<Rightarrow>
          (let offset = Number blk * blocksize fm1 in
           case file_Seek f offset of
             Inl e \<Rightarrow> (fm1, d1, h, Inl e)
           | Inr f1 \<Rightarrow>
               (case io_ReadFull d1 h f1 (buf p) of
                  (h', f2, r) \<Rightarrow>
                    (fm1\<lparr>openFiles := (openFiles fm1)(FileName blk \<mapsto> f2)\<rparr>, d1, h', r))))"

definition Write ::
  "FileMgr \<Rightarrow> directory \<Rightarrow> heap \<Rightarrow> BlockId \<Rightarrow> Page \<Rightarrow> FileMgr \<times> directory \<times> unit result"
  where
  "Write fm d h blk p =
     (if go_len (buf p) \<noteq> blocksize fm
      then (fm, d, Inl (Err (ErrorString ''Write: page size != blocksize'')))
      else case getFile fm d (FileName blk) of
        (fm1, d1, Inl e) \<Rightarrow> (fm1, d1, Inl e)
      | (fm1, d1, Inr f) \<Rightarrow>
          (let offset = Number blk * blocksize fm1 in
           case file_Seek f offset of
             Inl e \<Rightarrow> (fm1, d1, Inl e)
           | Inr f1 \<Rightarrow>
               (case file_Write d1 f1 (slice_contents h (buf p)) of
                  (d2, f2, Inl e) \<Rightarrow>
                    (fm1\<lparr>openFiles := (openFiles fm1)(FileName blk \<mapsto> f2)\<rparr>, d2, Inl e)
                | (d2, f2, Inr u) \<Rightarrow>
                    (fm1\<lparr>openFiles := (openFiles fm1)(FileName blk \<mapsto> f2)\<rparr>, d2,
                     file_Sync f2))))"

text \<open>
  In \<open>Append\<close> the slice \<open>zero\<close> is local and never escapes, so only its contents are kept;
  \<open>make\<close> still panics on a negative block size.
\<close>

definition Append :: "FileMgr \<Rightarrow> directory \<Rightarrow> string \<Rightarrow> FileMgr \<times> directory \<times> BlockId result"
  where
  "Append fm d name =
     (case getFile fm d name of
        (fm1, d1, Inl e) \<Rightarrow> (fm1, d1, Inl e)
      | (fm1, d1, Inr f) \<Rightarrow>
          (case file_Size d1 f of
             Inl e \<Rightarrow> (fm1, d1, Inl e)
           | Inr sz \<Rightarrow>
               (if blocksize fm1 = 0 then (fm1, d1, Inl (Panic ''integer divide by zero''))
                else let newBlkNum = go_div sz (blocksize fm1);
                         blk = NewBlockId name newBlkNum
                     in if blocksize fm1 <s 0
                        then (fm1, d1, Inl (Panic ''makeslice: len out of range''))
                        else let zero = replicate (unat (blocksize fm1)) (0 :: byte) in
                          (case file_WriteAt d1 f zero (newBlkNum * blocksize fm1) of
                             (d2, Inl e) \<Rightarrow> (fm1, d2, Inl e)
                           | (d2, Inr u) \<Rightarrow>
                               (case file_Sync f of
                                  Inl e \<Rightarrow> (fm1, d2, Inl e)
                                | Inr u' \<Rightarrow> (fm1, d2, Inr blk))))))"

section \<open>Scenarios\<close>

text \<open>
  \<open>Append\<close> called \<open>k\<close> times in sequence on one file name, each call followed by \<open>Length\<close>;
  the results of both are collected in call order.
\<close>

fun append_times ::
  "nat \<Rightarrow> FileMgr \<Rightarrow> directory \<Rightarrow> string \<Rightarrow>
     FileMgr \<times> directory \<times> (BlockId result \<times> goint result) list" where
  "append_times 0 fm d name = (fm, d, [])"
| "append_times (Suc k) fm d name =
     (case Append fm d name of
        (fm1, d1, r) \<Rightarrow>
          (case Length fm1 d1 name of
             (fm2, d2, n) \<Rightarrow>
               (case append_times k fm2 d2 name of
                  (fm3, d3, rs) \<Rightarrow> (fm3, d3, (r, n) # rs))))"

text \<open>The bytes of block \<open>i\<close> of a file with blocks of \<open>bs\<close> bytes.\<close>

definition block_bytes :: "byte list \<Rightarrow> nat \<Rightarrow> nat \<Rightarrow> byte list" where
  "block_bytes c bs i = take bs (drop (i * bs) c)"

section \<open>Vocabulary of the properties\<close>

text \<open>
  The definitions below are not part of the program; the statements about it are written
  with them. \<open>be_bytes v\<close> is the big-endian encoding of a 32-bit value, \<open>page_bytes h p\<close>
  the contents of a page's buffer, and \<open>window s k\<close> the slice \<open>s[k:]\<close> for an index in range.
\<close>

definition be_bytes :: "uint32 \<Rightarrow> byte list" where
  "be_bytes v = [ucast (drop_bit 24 v), ucast (drop_bit 16 v), ucast (drop_bit 8 v), ucast v]"

definition page_bytes :: "heap \<Rightarrow> Page \<Rightarrow> byte list" where
  "page_bytes h p = slice_contents h (buf p)"

definition window :: "slice \<Rightarrow> nat \<Rightarrow> slice" where
  "window s k = \<lparr>arr = arr s, off = off s + k, slen = slen s - k, scap = scap s - k\<rparr>"

text \<open>
  \<open>apart b s k n\<close>: the slice \<open>b\<close> shares no byte with the \<open>n\<close> bytes of \<open>s\<close> that start at
  index \<open>k\<close>. An empty slice shares no byte with anything.
\<close>

definition apart :: "slice \<Rightarrow> slice \<Rightarrow> nat \<Rightarrow> nat \<Rightarrow> bool" where
  "apart b s k n \<longleftrightarrow>
     slen b = 0 \<or> arr b \<noteq> arr s \<or> off b + slen b \<le> off s + k \<or> off s + k + n \<le> off b"

text \<open>
  A name that is one component of a path: it is not empty, not \<open>.\<close> or \<open>..\<close>, and has no
  separator and no NUL byte. The entries of a directory have such names.
\<close>

definition plain_name :: "string \<Rightarrow> bool" where
  "plain_name n \<longleftrightarrow>
     n \<noteq> [] \<and> n \<noteq> ''.'' \<and> n \<noteq> ''..'' \<and> CHR ''/'' \<notin> set n \<and> CHR 0x00 \<notin> set n"

text \<open>
  The invariant of a file manager and its directory: the entries of the directory have
  the names that entries have, every cached handle was opened on the name it is cached
  under, and that name is a regular file. \<open>NewFileMgr\<close> establishes it over a directory of
  the operating system (the table is empty) and every operation on a plain name keeps it.
\<close>

definition handles_ok :: "FileMgr \<Rightarrow> directory \<Rightarrow> bool" where
  "handles_ok fm d \<longleftrightarrow>
     list_all plain_name (map fst d)
     \<and> (\<forall>n f. openFiles fm n = Some f \<longrightarrow> fname f = n \<and> (\<exists>c. map_of d n = Some (File c)))"

text \<open>What \<open>os.Remove\<close> can remove: a regular file or an empty directory.\<close>

definition removable :: "node option \<Rightarrow> bool" where
  "removable x = (case x of None \<Rightarrow> False | Some (File c) \<Rightarrow> True | Some (Dir es) \<Rightarrow> es = [])"

section \<open>Machine arithmetic\<close>

lemma sint_of_nat_goint: "n < 2 ^ 63 \<Longrightarrow> sint (of_nat n :: goint) = int n"
  by (simp add: signed_of_nat signed_take_bit_int_eq_self)

lemma unat_of_nat_goint: "n < 2 ^ 63 \<Longrightarrow> unat (of_nat n :: goint) = n"
  by (simp add: unat_of_nat take_bit_nat_eq_self)

lemma unat_nonneg_goint: "0 \<le> sint (k :: goint) \<Longrightarrow> int (unat k) = sint k"
proof -
  assume a: "0 \<le> sint k"
  have "sint k < 9223372036854775808" using sint_lt [of k] by simp
  then have "sint k < 18446744073709551616" by linarith
  with a have "take_bit 64 (sint k) = sint k"
    by (intro take_bit_int_eq_self) simp_all
  then have "uint k = sint k" using uint_sint [of k] by simp
  then show ?thesis by simp
qed

lemma sint_add_goint:
  "- (2 ^ 63) \<le> sint (a :: goint) + sint b \<Longrightarrow> sint a + sint b < 2 ^ 63
   \<Longrightarrow> sint (a + b) = sint a + sint b"
  by (simp add: sint_word_add signed_take_bit_int_eq_self)

lemma sint_add4:
  assumes "0 \<le> sint (k :: goint)" "sint k + 4 < 2 ^ 63"
  shows "sint (k + 4) = sint k + 4"
  using assms sint_add_goint [of k 4] by simp

lemma sint_ucast_u32: "sint (ucast (u :: uint32) :: goint) = uint u"
proof -
  have "uint u < 4294967296" using uint_lt2p[of u] by simp
  moreover have "0 \<le> uint u" by simp
  ultimately have "- 9223372036854775808 \<le> uint u" "uint u < 9223372036854775808" by linarith+
  then have "signed_take_bit 63 (uint u) = uint u"
    by (intro signed_take_bit_int_eq_self) simp_all
  then show ?thesis by (simp add: signed_ucast_eq)
qed

section \<open>Slices and the heap\<close>

lemma valid_slice_len: "valid_slice h s \<Longrightarrow> slen s < 2 ^ 63"
  by (simp add: valid_slice_def)

lemma sint_go_len: "valid_slice h s \<Longrightarrow> sint (go_len s) = int (slen s)"
  by (simp add: go_len_def sint_of_nat_goint valid_slice_def)

lemma be_roundtrip:
  "ucast (ucast v :: byte) OR push_bit 8 (ucast (ucast (drop_bit 8 v) :: byte))
     OR push_bit 16 (ucast (ucast (drop_bit 16 v) :: byte))
     OR push_bit 24 (ucast (ucast (drop_bit 24 v) :: byte)) = (v :: uint32)"
  apply (rule bit_word_eqI)
  apply (auto simp: bit_simps)
  subgoal for n by (cases "24 \<le> n") auto
  done

text \<open>Slicing at an offset inside the slice.\<close>

lemma slice_from_in_range:
  assumes v: "valid_slice h s" and k0: "0 \<le> sint k" and kn: "sint k \<le> int (slen s)"
  shows "slice_from s k = Some \<lparr>arr = arr s, off = off s + unat k, slen = slen s - unat k,
          scap = scap s - unat k\<rparr>"
  using assms by (simp add: slice_from_def word_sle_eq sint_go_len)

lemma slice_from_negative: "sint k < 0 \<Longrightarrow> slice_from s k = None"
  by (simp add: slice_from_def word_sle_eq)

lemma slice_contents_length:
  "valid_slice h s \<Longrightarrow> length (slice_contents h s) = slen s"
  by (auto simp: slice_contents_def valid_slice_def)

lemma slice_store_contents:
  assumes "arr s < length h" "off s + length bs \<le> length (h ! arr s)" "length bs \<le> slen s"
  shows "slice_contents (slice_store h s bs) s = bs @ drop (length bs) (slice_contents h s)"
  using assms
  by (simp add: slice_contents_def slice_store_def drop_take min_def add.commute)

lemma PutUint32_Some:
  "4 \<le> slen b \<Longrightarrow> PutUint32 h b v = Some (slice_store h b (be_bytes v))"
  by (simp add: PutUint32_def be_bytes_def)

lemma Uint32_be_bytes:
  assumes "4 \<le> slen b" "slice_contents h b = be_bytes v @ rest"
  shows "Uint32 h b = Some v"
  using assms by (simp add: Uint32_def be_bytes_def be_roundtrip)

section \<open>Page: integers\<close>

text \<open>The window of the four bytes at a valid offset of a page.\<close>

lemma hdr_window:
  assumes v: "valid_slice h s" and k0: "0 \<le> sint k" and kn: "sint k + 4 \<le> int (slen s)"
  shows "\<not> go_len s <s k + 4"
    and "slice_from s k = Some \<lparr>arr = arr s, off = off s + unat k, slen = slen s - unat k,
          scap = scap s - unat k\<rparr>"
    and "unat k + 4 \<le> slen s"
proof -
  have l: "slen s < 2 ^ 63" using v by (rule valid_slice_len)
  then have "int (slen s) < 2 ^ 63" by (metis of_nat_less_iff of_nat_numeral of_nat_power)
  with kn have "sint k + 4 < 2 ^ 63" by linarith
  with k0 have "sint (k + 4) = sint k + 4" by (rule sint_add4)
  with kn v show "\<not> go_len s <s k + 4" by (simp add: word_sless_alt sint_go_len)
  from k0 kn show "slice_from s k = Some \<lparr>arr = arr s, off = off s + unat k,
      slen = slen s - unat k, scap = scap s - unat k\<rparr>"
    by (intro slice_from_in_range [OF v]) auto
  from unat_nonneg_goint [OF k0] kn show "unat k + 4 \<le> slen s" by linarith
qed

lemma SetInt_ok:
  assumes v: "valid_slice h (buf p)" and k0: "0 \<le> sint offset"
    and kn: "sint offset + 4 \<le> int (slen (buf p))"
  shows "SetInt h p offset x =
     (slice_store h \<lparr>arr = arr (buf p), off = off (buf p) + unat offset,
        slen = slen (buf p) - unat offset, scap = scap (buf p) - unat offset\<rparr>
        (be_bytes (ucast x)), Inr ())"
  using hdr_window [OF v k0 kn] by (simp add: SetInt_def PutUint32_Some)

lemma window_contents:
  "valid_slice h s \<Longrightarrow> k \<le> slen s \<Longrightarrow> slice_contents h (window s k) = drop k (slice_contents h s)"
  by (simp add: slice_contents_def window_def drop_take add.commute)

lemma window_store_contents:
  assumes v: "valid_slice h s" and kb: "k + length bs \<le> slen s"
  shows "slice_contents (slice_store h (window s k) bs) s =
           take k (slice_contents h s) @ bs @ drop (k + length bs) (slice_contents h s)"
proof -
  let ?A = "h ! arr s"
  have a: "arr s < length h" and b: "off s + slen s \<le> length ?A"
    using v by (auto simp: valid_slice_def)
  have 1: "drop (off s) (take (off s + k) ?A) = take k (drop (off s) ?A)"
    by (simp add: drop_take)
  have 2: "min (length ?A - off s) k = k" using b kb by simp
  have "slice_contents (slice_store h (window s k) bs) s =
      take (slen s) (drop (off s) (take (off s + k) ?A @ bs @ drop (off s + k + length bs) ?A))"
    using a by (simp add: slice_contents_def slice_store_def window_def)
  also have "\<dots> = take (slen s) (take k (drop (off s) ?A) @ bs @ drop (off s + k + length bs) ?A)"
    using b kb by (simp add: 1)
  also have "\<dots> = take k (drop (off s) ?A) @ bs
       @ take (slen s - k - length bs) (drop (off s + k + length bs) ?A)"
    using kb by (simp add: 2)
  also have "\<dots> = take k (slice_contents h s) @ bs @ drop (k + length bs) (slice_contents h s)"
    using kb by (simp add: slice_contents_def drop_take min_def add_ac)
  finally show ?thesis .
qed

lemma slice_store_array_length:
  assumes "off w + length bs \<le> length (h ! arr w)"
  shows "length (slice_store h w bs ! a) = length (h ! a)"
proof (cases "a = arr w \<and> a < length h")
  case True
  with assms show ?thesis by (simp add: slice_store_def)
next
  case False
  then show ?thesis
    by (cases "arr w < length h") (auto simp: slice_store_def list_update_beyond not_less)
qed

lemma slice_store_valid:
  assumes "valid_slice h s" "off w + length bs \<le> length (h ! arr w)"
  shows "valid_slice (slice_store h w bs) s"
  using assms by (simp add: valid_slice_def slice_store_array_length) (simp add: slice_store_def)

lemma slice_store_other:
  "a \<noteq> arr w \<Longrightarrow> slice_store h w bs ! a = h ! a"
  by (simp add: slice_store_def)

lemma slice_store_length [simp]: "length (slice_store h w bs) = length h"
  by (simp add: slice_store_def)

lemma slice_from_window:
  assumes "valid_slice h s" "0 \<le> sint k" "sint k \<le> int (slen s)"
  shows "slice_from s k = Some (window s (unat k))"
  using slice_from_in_range [OF assms] by (simp add: window_def)

lemma SetInt_valid_offset:
  assumes v: "valid_slice h (buf p)" and k0: "0 \<le> sint offset"
    and kn: "sint offset + 4 \<le> int (slen (buf p))"
  shows "SetInt h p offset x =
     (slice_store h (window (buf p) (unat offset)) (be_bytes (ucast x)), Inr ())"
  using SetInt_ok [OF assms] by (simp add: window_def)

lemma be_bytes_length [simp]: "length (be_bytes v) = 4"
  by (simp add: be_bytes_def)

lemma window_simps [simp]:
  "arr (window s k) = arr s" "off (window s k) = off s + k" "slen (window s k) = slen s - k"
  by (simp_all add: window_def)

lemma GetInt_valid_offset:
  assumes v: "valid_slice h (buf p)" and k0: "0 \<le> sint offset"
    and kn: "sint offset + 4 \<le> int (slen (buf p))"
    and c: "drop (unat offset) (page_bytes h p) = be_bytes u @ rest"
  shows "GetInt h p offset = Inr (ucast u)"
proof -
  note w = hdr_window [OF v k0 kn]
  have "slice_contents h (window (buf p) (unat offset)) = be_bytes u @ rest"
    using w(3) c by (simp add: window_contents [OF v] page_bytes_def)
  then have "Uint32 h (window (buf p) (unat offset)) = Some u"
    using w(3) by (intro Uint32_be_bytes) auto
  then show ?thesis using w by (simp add: GetInt_def window_def)
qed

lemma page_bytes_SetInt:
  assumes v: "valid_slice h (buf p)" and k0: "0 \<le> sint offset"
    and kn: "sint offset + 4 \<le> int (slen (buf p))"
  shows "page_bytes (fst (SetInt h p offset x)) p =
     take (unat offset) (page_bytes h p) @ be_bytes (ucast x)
       @ drop (unat offset + 4) (page_bytes h p)"
  using hdr_window(3) [OF assms]
  by (simp add: SetInt_valid_offset [OF assms] page_bytes_def window_store_contents [OF v])

lemma valid_after_SetInt:
  assumes v: "valid_slice h (buf p)" and k0: "0 \<le> sint offset"
    and kn: "sint offset + 4 \<le> int (slen (buf p))" and s: "valid_slice h s"
  shows "valid_slice (fst (SetInt h p offset x)) s"
proof -
  have "unat offset + 4 \<le> slen (buf p)" by (rule hdr_window(3) [OF v k0 kn])
  then have "off (buf p) + unat offset + 4 \<le> length (h ! arr (buf p))"
    using v by (simp add: valid_slice_def)
  then show ?thesis
    by (simp add: SetInt_valid_offset [OF v k0 kn] slice_store_valid [OF s])
qed

lemma SetInt_GetInt:
  assumes v: "valid_slice h (buf p)" and k0: "0 \<le> sint offset"
    and kn: "sint offset + 4 \<le> int (slen (buf p))"
  shows "GetInt (fst (SetInt h p offset x)) p offset = Inr (ucast (ucast x :: uint32))"
proof -
  let ?h = "fst (SetInt h p offset x)"
  have v': "valid_slice ?h (buf p)" by (rule valid_after_SetInt [OF v k0 kn v])
  have n: "unat offset + 4 \<le> slen (buf p)" by (rule hdr_window(3) [OF v k0 kn])
  then have "unat offset \<le> length (page_bytes h p)"
    by (simp add: page_bytes_def slice_contents_length [OF v])
  then have "drop (unat offset) (page_bytes ?h p) =
      be_bytes (ucast x) @ drop (unat offset + 4) (page_bytes h p)"
    by (simp add: page_bytes_SetInt [OF v k0 kn])
  then show ?thesis by (rule GetInt_valid_offset [OF v' k0 kn])
qed

lemma sint_low32: "sint (ucast (ucast (x :: goint) :: uint32) :: goint) = sint x mod 2 ^ 32"
proof -
  have "uint (ucast x :: uint32) = uint x mod 2 ^ 32"
    by (simp add: unsigned_ucast_eq take_bit_eq_mod)
  also have "uint x = sint x mod 2 ^ 64"
    by (simp add: uint_sint take_bit_eq_mod)
  also have "sint x mod 2 ^ 64 mod 2 ^ 32 = sint x mod 2 ^ 32"
    by (simp add: mod_mod_cancel)
  finally show ?thesis by (simp add: sint_ucast_u32)
qed

lemma GetInt_range:
  assumes "GetInt h p offset = Inr r"
  shows "0 \<le> sint r \<and> sint r < 2 ^ 32"
proof -
  from assms obtain u :: uint32 where "r = ucast u"
    by (auto simp: GetInt_def split: if_splits option.splits)
  then have "sint r = uint u" by (simp add: sint_ucast_u32)
  moreover have "uint u < 2 ^ 32" using uint_lt2p [of u] by simp
  ultimately show ?thesis by simp
qed

lemma SetInt_low32:
  "(ucast (v :: goint) :: uint32) = ucast (v' :: goint) \<Longrightarrow> SetInt h p offset v = SetInt h p offset v'"
  by (simp add: SetInt_def split: option.splits)

section \<open>Page: byte arrays and strings\<close>

lemma sint_go_cap: "valid_slice h s \<Longrightarrow> sint (go_cap s) = int (scap s)"
  by (simp add: go_cap_def sint_of_nat_goint valid_slice_def)

lemma int_lt_2p63: "(n :: nat) < 2 ^ 63 \<Longrightarrow> int n < 2 ^ 63"
  by (metis of_nat_less_iff of_nat_numeral of_nat_power)

text \<open>The sum \<open>offset + 4 + len\<close> of the bounds checks, when it does not overflow.\<close>

lemma sint_offset_4_len:
  assumes k0: "0 \<le> sint (k :: goint)" and l0: "0 \<le> sint (l :: goint)"
    and b: "sint k + 4 + sint l < 2 ^ 63"
  shows "sint (k + 4) = sint k + 4" and "sint (k + 4 + l) = sint k + 4 + sint l"
    and "unat (k + 4) = unat k + 4" and "unat (k + 4 + l) = unat k + 4 + unat l"
proof -
  show 1: "sint (k + 4) = sint k + 4" using k0 l0 b by (intro sint_add4) auto
  show 2: "sint (k + 4 + l) = sint k + 4 + sint l"
    using k0 l0 b 1 sint_add_goint [of "k + 4" l] by simp
  have "int (unat (k + 4)) = sint k + 4" using unat_nonneg_goint [of "k + 4"] 1 k0 by simp
  then show "unat (k + 4) = unat k + 4" using unat_nonneg_goint [OF k0] by linarith
  have "int (unat (k + 4 + l)) = sint k + 4 + sint l"
    using unat_nonneg_goint [of "k + 4 + l"] 2 k0 l0 by simp
  then show "unat (k + 4 + l) = unat k + 4 + unat l"
    using unat_nonneg_goint [OF k0] unat_nonneg_goint [OF l0] by linarith
qed

lemma make_bytes_Some:
  "0 \<le> sint n \<Longrightarrow> make_bytes h n =
     Some (h @ [replicate (unat n) 0], \<lparr>arr = length h, off = 0, slen = unat n, scap = unat n\<rparr>)"
  by (simp add: make_bytes_def word_sless_alt)

lemma GetBytes_valid:
  assumes v: "valid_slice h (buf p)" and k0: "0 \<le> sint offset"
    and c: "drop (unat offset) (page_bytes h p) = be_bytes u @ payload @ rest"
    and n: "length payload = unat u"
  shows "GetBytes h p offset =
     (h @ [payload], Inr \<lparr>arr = length h, off = 0, slen = unat u, scap = unat u\<rparr>)"
proof -
  let ?s = "buf p" and ?k = "unat offset"
  let ?len = "ucast u :: goint"
  have len: "length (page_bytes h p) = slen ?s"
    by (simp add: page_bytes_def slice_contents_length [OF v])
  have "length (drop ?k (page_bytes h p)) = 4 + unat u + length rest"
    by (simp add: c n)
  then have tot: "?k + 4 + unat u + length rest = slen ?s" using len by simp
  have kint: "int ?k = sint offset" by (rule unat_nonneg_goint [OF k0])
  have kn: "sint offset + 4 \<le> int (slen ?s)" using tot kint by linarith
  note w = hdr_window [OF v k0 kn]
  have "slice_contents h (window ?s ?k) = be_bytes u @ payload @ rest"
    using w(3) c by (simp add: window_contents [OF v] page_bytes_def)
  then have u: "Uint32 h (window ?s ?k) = Some u"
    using w(3) by (intro Uint32_be_bytes) auto
  have sl: "sint ?len = int (unat u)" by (simp add: sint_ucast_u32)
  have l0: "0 \<le> sint ?len" using sl by simp
  have ul: "unat ?len = unat u" using unat_nonneg_goint [OF l0] sl by linarith
  have "int (slen ?s) < 2 ^ 63" using valid_slice_len [OF v] by (rule int_lt_2p63)
  then have b: "sint offset + 4 + sint ?len < 2 ^ 63" using tot kint sl by linarith
  note a = sint_offset_4_len [OF k0 l0 b]
  have toti: "sint offset + 4 + sint ?len \<le> int (slen ?s)" using tot kint sl by linarith
  have e: "\<not> go_len ?s <s offset + 4 + ?len"
    using toti by (simp only: word_sless_alt sint_go_len [OF v] a not_less)
  have cap: "slen ?s \<le> scap ?s" using v by (simp add: valid_slice_def)
  have r: "slice_range ?s (offset + 4) (offset + 4 + ?len) =
      Some \<lparr>arr = arr ?s, off = off ?s + (?k + 4), slen = unat u, scap = scap ?s - (?k + 4)\<rparr>"
  proof -
    have "sint offset + 4 + sint ?len \<le> int (scap ?s)" using toti cap by linarith
    moreover have "0 \<le> sint offset + 4" "sint offset + 4 \<le> sint offset + 4 + sint ?len"
      using k0 l0 by linarith+
    ultimately have "0 \<le>s offset + 4 \<and> offset + 4 \<le>s offset + 4 + ?len
        \<and> offset + 4 + ?len \<le>s go_cap ?s"
      by (simp only: word_sle_eq sint_go_cap [OF v] a sint_0)
    then show ?thesis by (simp add: slice_range_def a ul)
  qed
  have src: "slice_contents (h @ [replicate (unat u) 0])
      \<lparr>arr = arr ?s, off = off ?s + (?k + 4), slen = unat u, scap = scap ?s - (?k + 4)\<rparr> = payload"
  proof -
    have "arr ?s < length h" using v by (simp add: valid_slice_def)
    then have "(h @ [replicate (unat u) 0]) ! arr ?s = h ! arr ?s" by (simp add: nth_append)
    then have "slice_contents (h @ [replicate (unat u) 0])
      \<lparr>arr = arr ?s, off = off ?s + (?k + 4), slen = unat u, scap = scap ?s - (?k + 4)\<rparr>
       = take (unat u) (drop (off ?s + (?k + 4)) (h ! arr ?s))"
      by (simp add: slice_contents_def)
    also have "\<dots> = take (unat u) (drop 4 (drop ?k (page_bytes h p)))"
      using tot by (simp add: page_bytes_def slice_contents_def drop_take add_ac)
    also have "\<dots> = payload" by (simp add: c n)
    finally show ?thesis .
  qed
  have cp: "copy_bytes (h @ [replicate (unat u) 0])
       \<lparr>arr = length h, off = 0, slen = unat u, scap = unat u\<rparr>
       \<lparr>arr = arr ?s, off = off ?s + (?k + 4), slen = unat u, scap = scap ?s - (?k + 4)\<rparr>
     = h @ [payload]"
    by (simp add: copy_bytes_def src slice_store_def n)
  show ?thesis
    using w(1) e
    by (simp add: GetBytes_def w(2) [folded window_def] u Let_def make_bytes_Some [OF l0] ul r cp)
qed

lemma SetBytes_valid:
  assumes v: "valid_slice h (buf p)" and vb: "valid_slice h b" and k0: "0 \<le> sint offset"
    and fit: "sint offset + 4 + int (slen b) \<le> int (slen (buf p))"
  defines "h1 \<equiv> slice_store h (window (buf p) (unat offset)) (be_bytes (ucast (go_len b)))"
  shows "SetBytes h p offset b =
     (slice_store h1 (window (buf p) (unat offset + 4)) (slice_contents h1 b), Inr ())"
proof -
  let ?s = "buf p" and ?k = "unat offset"
  have kn: "sint offset + 4 \<le> int (slen ?s)" using fit by linarith
  note w = hdr_window [OF v k0 kn]
  have lb: "sint (go_len b) = int (slen b)" by (rule sint_go_len [OF vb])
  have l0: "0 \<le> sint (go_len b)" using lb by simp
  have "int (slen ?s) < 2 ^ 63" using valid_slice_len [OF v] by (rule int_lt_2p63)
  then have b: "sint offset + 4 + sint (go_len b) < 2 ^ 63" using fit lb by linarith
  note a = sint_offset_4_len [OF k0 l0 b]
  have e: "\<not> go_len ?s <s offset + 4 + go_len b"
    using fit by (simp only: word_sless_alt sint_go_len [OF v] a lb not_less)
  have "0 \<le> sint offset + 4" using k0 by linarith
  then have "0 \<le> sint (offset + 4)" "sint (offset + 4) \<le> int (slen ?s)"
    using kn by (simp_all only: a)
  then have d: "slice_from ?s (offset + 4) = Some (window ?s (?k + 4))"
    using slice_from_window [OF v, of "offset + 4"] by (simp add: a)
  have vb1: "valid_slice h1 b"
    unfolding h1_def using w(3) v
    by (intro slice_store_valid [OF vb]) (simp add: valid_slice_def)
  have fitn: "?k + 4 + slen b \<le> slen ?s" using fit unat_nonneg_goint [OF k0] by linarith
  then have "slen (window ?s (?k + 4)) \<ge> slen b" by simp
  then have cp: "copy_bytes h1 (window ?s (?k + 4)) b =
      slice_store h1 (window ?s (?k + 4)) (slice_contents h1 b)"
    using slice_contents_length [OF vb1]
    by (simp add: copy_bytes_def min_def)
  show ?thesis
    using e w(3)
    by (simp add: SetBytes_def w(2) [folded window_def] PutUint32_Some d cp [unfolded h1_def] h1_def)
qed

lemma slice_store_disjoint:
  assumes d: "arr b \<noteq> arr w \<or> off b + slen b \<le> off w \<or> off w + length bs \<le> off b"
    and f: "off w + length bs \<le> length (h ! arr w)"
  shows "slice_contents (slice_store h w bs) b = slice_contents h b"
proof (cases "arr b = arr w \<and> arr w < length h")
  case False
  then show ?thesis
    by (cases "arr w < length h")
       (auto simp: slice_contents_def slice_store_def list_update_beyond not_less)
next
  case True
  let ?A = "h ! arr w"
  from True d have "off b + slen b \<le> off w \<or> off w + length bs \<le> off b" by simp
  then show ?thesis
  proof
    assume l: "off b + slen b \<le> off w"
    have "take (slen b) (drop (off b) (take (off w) ?A @ bs @ drop (off w + length bs) ?A))
        = take (slen b) (drop (off b) (take (off w) ?A))"
      using l f by simp
    also have "\<dots> = take (slen b) (drop (off b) ?A)"
      using l by (simp add: drop_take min_def)
    finally show ?thesis using True by (simp add: slice_contents_def slice_store_def)
  next
    assume r: "off w + length bs \<le> off b"
    have "drop (off b) (take (off w) ?A @ bs @ drop (off w + length bs) ?A) = drop (off b) ?A"
      using r f by (simp add: min_def)
    then show ?thesis using True by (simp add: slice_contents_def slice_store_def)
  qed
qed

lemma unat_len32:
  assumes "n < 2 ^ 32"
  shows "unat (ucast (of_nat n :: goint) :: uint32) = n"
proof -
  have "n < 2 ^ 63" using assms by (rule less_trans) simp
  then have "unat (of_nat n :: goint) = n" by (rule unat_of_nat_goint)
  then show ?thesis using assms by (simp add: unsigned_ucast_eq take_bit_nat_eq_self)
qed

lemma unat_len32_le:
  assumes "n < 2 ^ 63"
  shows "unat (ucast (of_nat n :: goint) :: uint32) \<le> n"
proof -
  have "unat (of_nat n :: goint) = n" using assms by (rule unat_of_nat_goint)
  then show ?thesis by (simp add: unsigned_ucast_eq take_bit_nat_less_eq_self)
qed

text \<open>What \<open>GetBytes\<close> returns after \<open>SetBytes\<close>: as many bytes as the 32-bit length header
  says, taken from \<open>b\<close> as it is once the header has been written.\<close>

lemma SetBytes_GetBytes:
  assumes v: "valid_slice h (buf p)" and vb: "valid_slice h b" and k0: "0 \<le> sint offset"
    and fit: "sint offset + 4 + int (slen b) \<le> int (slen (buf p))"
  defines "h1 \<equiv> slice_store h (window (buf p) (unat offset)) (be_bytes (ucast (go_len b)))"
  defines "h2 \<equiv> fst (SetBytes h p offset b)"
  defines "m \<equiv> unat (ucast (go_len b) :: uint32)"
  shows "snd (SetBytes h p offset b) = Inr ()"
    and "GetBytes h2 p offset =
      (h2 @ [take m (slice_contents h1 b)], Inr \<lparr>arr = length h2, off = 0, slen = m, scap = m\<rparr>)"
    and "length h2 = length h"
    and "valid_slice h2 (buf p)"
proof -
  let ?s = "buf p" and ?k = "unat offset" and ?hdr = "be_bytes (ucast (go_len b))"
  let ?C = "slice_contents h1 b"
  have S: "SetBytes h p offset b = (slice_store h1 (window ?s (?k + 4)) ?C, Inr ())"
    unfolding h1_def by (rule SetBytes_valid [OF v vb k0 fit])
  then show "snd (SetBytes h p offset b) = Inr ()" by simp
  have h2: "h2 = slice_store h1 (window ?s (?k + 4)) ?C" by (simp add: h2_def S)
  show "length h2 = length h" by (simp add: h2 h1_def)
  have fitn: "?k + 4 + slen b \<le> slen ?s" using fit unat_nonneg_goint [OF k0] by linarith
  have bound: "off ?s + slen ?s \<le> length (h ! arr ?s)" using v by (simp add: valid_slice_def)
  have v1: "valid_slice h1 ?s" unfolding h1_def
    using fitn bound by (intro slice_store_valid [OF v]) simp
  have vb1: "valid_slice h1 b" unfolding h1_def
    using fitn bound by (intro slice_store_valid [OF vb]) simp
  have lC: "length ?C = slen b" by (rule slice_contents_length [OF vb1])
  have len1: "length (h1 ! arr ?s) = length (h ! arr ?s)"
    unfolding h1_def using fitn bound by (intro slice_store_array_length) simp
  show v2: "valid_slice h2 ?s" unfolding h2
    using fitn bound lC len1 by (intro slice_store_valid [OF v1]) simp
  let ?P = "slice_contents h ?s" and ?P1 = "slice_contents h1 ?s"
  have lP: "length ?P = slen ?s" by (rule slice_contents_length [OF v])
  have P1: "?P1 = take ?k ?P @ ?hdr @ drop (?k + 4) ?P"
    unfolding h1_def using fitn by (simp add: window_store_contents [OF v])
  have P2: "page_bytes h2 p = take (?k + 4) ?P1 @ ?C @ drop (?k + 4 + slen b) ?P1"
    unfolding h2 page_bytes_def using fitn lC by (simp add: window_store_contents [OF v1])
  have "take (?k + 4) ?P1 = take ?k ?P @ ?hdr"
    using fitn lP by (simp add: P1)
  then have "drop ?k (page_bytes h2 p) = ?hdr @ ?C @ drop (?k + 4 + slen b) ?P1"
    using fitn lP by (simp add: P2)
  also have "?C = take m ?C @ drop m ?C" by simp
  finally have d: "drop ?k (page_bytes h2 p) =
      ?hdr @ take m ?C @ (drop m ?C @ drop (?k + 4 + slen b) ?P1)" by simp
  have "m \<le> slen b"
    unfolding m_def go_len_def by (rule unat_len32_le [OF valid_slice_len [OF vb]])
  then have "length (take m ?C) = unat (ucast (go_len b) :: uint32)"
    by (simp add: lC m_def)
  with d have "GetBytes h2 p offset =
     (h2 @ [take m ?C], Inr \<lparr>arr = length h2, off = 0, slen = unat (ucast (go_len b) :: uint32),
        scap = unat (ucast (go_len b) :: uint32)\<rparr>)"
    by (rule GetBytes_valid [OF v2 k0])
  then show "GetBytes h2 p offset =
      (h2 @ [take m ?C], Inr \<lparr>arr = length h2, off = 0, slen = m, scap = m\<rparr>)"
    by (simp add: m_def)
qed

lemma valid_slice_append: "valid_slice h s \<Longrightarrow> valid_slice (h @ xs) s"
  by (auto simp: valid_slice_def nth_append)

lemma char_of_byte_of_char [simp]: "char_of_byte (byte_of_char c) = c"
  by (simp add: char_of_byte_def byte_of_char_def unat_of_nat take_bit_nat_eq_self)

lemma slice_contents_whole:
  "n = length xs \<Longrightarrow>
     slice_contents (h @ [xs]) \<lparr>arr = length h, off = 0, slen = n, scap = m\<rparr> = xs"
  by (simp add: slice_contents_def)

lemma header_apart_contents:
  assumes v: "valid_slice h s" and fit: "k + 4 \<le> slen s" and ap: "apart b s k 4"
  shows "slice_contents (slice_store h (window s k) (be_bytes u)) b = slice_contents h b"
proof (cases "slen b = 0")
  case True
  then show ?thesis by (simp add: slice_contents_def)
next
  case False
  with ap have "arr b \<noteq> arr (window s k) \<or> off b + slen b \<le> off (window s k)
      \<or> off (window s k) + length (be_bytes u) \<le> off b"
    by (simp add: apart_def)
  moreover have "off (window s k) + length (be_bytes u) \<le> length (h ! arr (window s k))"
    using v fit by (simp add: valid_slice_def)
  ultimately show ?thesis by (rule slice_store_disjoint)
qed

lemma SetBytes_GetBytes_apart:
  assumes v: "valid_slice h (buf p)" and vb: "valid_slice h b" and k0: "0 \<le> sint offset"
    and fit: "sint offset + 4 + int (slen b) \<le> int (slen (buf p))"
    and small: "slen b < 2 ^ 32"
    and ap: "apart b (buf p) (unat offset) 4"
  shows "\<exists>h1. SetBytes h p offset b = (h1, Inr ()) \<and> length h1 = length h \<and>
           GetBytes h1 p offset =
             (h1 @ [slice_contents h b],
              Inr \<lparr>arr = length h1, off = 0, slen = slen b, scap = slen b\<rparr>)"
proof -
  have fitn: "unat offset + 4 \<le> slen (buf p)"
    using fit unat_nonneg_goint [OF k0] by linarith
  note r = SetBytes_GetBytes [OF v vb k0 fit]
  have m: "unat (ucast (go_len b) :: uint32) = slen b"
    using small by (simp add: go_len_def unat_len32)
  have l: "length (slice_contents h b) = slen b" by (rule slice_contents_length [OF vb])
  have c: "slice_contents (slice_store h (window (buf p) (unat offset))
       (be_bytes (ucast (go_len b)))) b = slice_contents h b"
    by (rule header_apart_contents [OF v fitn ap])
  have "SetBytes h p offset b = (fst (SetBytes h p offset b), Inr ())"
    using r(1) by (simp add: prod_eq_iff)
  with r(2,3) c m l show ?thesis by auto
qed

lemma SetString_GetString:
  assumes v: "valid_slice h (buf p)" and k0: "0 \<le> sint offset"
    and fit: "sint offset + 4 + int (length s) \<le> int (slen (buf p))"
    and small: "length s < 2 ^ 32"
  shows "\<exists>h1. SetString h p offset s = (h1, Inr ()) \<and>
           GetString h1 p offset = (h1 @ [map byte_of_char s], Inr s)"
proof -
  let ?h = "h @ [map byte_of_char s]"
  let ?b = "\<lparr>arr = length h, off = 0, slen = length s, scap = length s\<rparr>"
  have v': "valid_slice ?h (buf p)" by (rule valid_slice_append [OF v])
  have "length s < 2 ^ 63" using small by (rule less_trans) simp
  then have vb: "valid_slice ?h ?b" by (simp add: valid_slice_def)
  have "arr (buf p) < length h" using v by (simp add: valid_slice_def)
  then have ap: "apart ?b (buf p) (unat offset) 4" by (simp add: apart_def)
  have fit': "sint offset + 4 + int (slen ?b) \<le> int (slen (buf p))" using fit by simp
  have small': "slen ?b < 2 ^ 32" using small by simp
  from SetBytes_GetBytes_apart [OF v' vb k0 fit' small' ap]
  obtain h1 where 1: "SetBytes ?h p offset ?b = (h1, Inr ())"
    and 2: "GetBytes h1 p offset =
      (h1 @ [slice_contents ?h ?b], Inr \<lparr>arr = length h1, off = 0, slen = slen ?b, scap = slen ?b\<rparr>)"
    by blast
  have c: "slice_contents ?h ?b = map byte_of_char s" by (simp add: slice_contents_whole)
  have "SetString h p offset s = (h1, Inr ())"
    by (simp add: SetString_def bytes_of_string_def 1)
  moreover have "GetString h1 p offset = (h1 @ [map byte_of_char s], Inr s)"
    by (simp add: GetString_def 2 c string_of_bytes_def comp_def slice_contents_whole)
  ultimately show ?thesis by blast
qed

section \<open>Page: failures leave the buffer alone\<close>

lemma SetInt_failure_heap: "SetInt h p offset x = (h', Inl e) \<Longrightarrow> h' = h"
  by (auto simp: SetInt_def split: if_splits option.splits)

lemma slice_from_Some:
  assumes "slice_from s k = Some w"
  shows "0 \<le> sint k" and "sint k \<le> sint (go_len s)" and "w = window s (unat k)"
  using assms by (auto simp: slice_from_def window_def word_sle_eq split: if_splits)

lemma SetBytes_failure_heap:
  assumes r: "SetBytes h p offset b = (h', Inl e)" and v: "valid_slice h (buf p)"
  shows "h' = h"
proof (cases "slice_from (buf p) offset")
  case None
  with r show ?thesis by (auto simp: SetBytes_def split: if_splits)
next
  case (Some hdr)
  note s = slice_from_Some [OF Some]
  show ?thesis
  proof (cases "slen hdr < 4")
    case True
    with r Some show ?thesis by (auto simp: SetBytes_def PutUint32_def split: if_splits)
  next
    case False
    have k0: "0 \<le> sint offset" by (rule s(1))
    have kl: "sint offset \<le> int (slen (buf p))" using s(2) by (simp add: sint_go_len [OF v])
    have "unat offset + 4 \<le> slen (buf p)" using False s(3) by simp
    then have kn: "sint offset + 4 \<le> int (slen (buf p))"
      using unat_nonneg_goint [OF k0] by linarith
    have "int (slen (buf p)) < 2 ^ 63" using valid_slice_len [OF v] by (rule int_lt_2p63)
    then have "sint offset + 4 < 2 ^ 63" using kn by linarith
    then have a: "sint (offset + 4) = sint offset + 4" using k0 by (intro sint_add4)
    have "0 \<le> sint (offset + 4)" "sint (offset + 4) \<le> int (slen (buf p))"
      using k0 kn by (simp_all add: a)
    then have "slice_from (buf p) (offset + 4) \<noteq> None"
      using slice_from_window [OF v, of "offset + 4"] by simp
    with r Some False show ?thesis
      by (auto simp: SetBytes_def PutUint32_def split: if_splits option.splits)
  qed
qed

lemma GetBytes_failure_page:
  assumes r: "GetBytes h p offset = (h', Inl e)" and v: "valid_slice h (buf p)"
  shows "page_bytes h' p = page_bytes h p"
proof -
  have "h' = h \<or> (\<exists>n. h' = h @ [replicate n 0])"
    using r
    by (auto simp: GetBytes_def Let_def make_bytes_def split: if_splits option.splits)
  moreover have "arr (buf p) < length h" using v by (simp add: valid_slice_def)
  ultimately show ?thesis by (auto simp: page_bytes_def slice_contents_def nth_append)
qed

text \<open>At a non-negative offset the checks of the source decide as the claim says: an
  operation whose range ends at or before the end of the buffer succeeds, one that ends
  past it returns the bounds error.\<close>

lemma SetInt_past_end:
  assumes v: "valid_slice h (buf p)" and k0: "0 \<le> sint offset"
    and kn: "int (slen (buf p)) < sint offset + 4" and no: "sint offset + 4 < 2 ^ 63"
  shows "SetInt h p offset x = (h, Inl (Err (ErrorString ''SetInt: out of bounds'')))"
    and "GetInt h p offset = Inl (Err (ErrorString ''GetInt: out of bounds''))"
proof -
  have "sint (offset + 4) = sint offset + 4" using k0 no by (rule sint_add4)
  then have "go_len (buf p) <s offset + 4"
    using kn by (simp add: word_sless_alt sint_go_len [OF v])
  then show "SetInt h p offset x = (h, Inl (Err (ErrorString ''SetInt: out of bounds'')))"
    and "GetInt h p offset = Inl (Err (ErrorString ''GetInt: out of bounds''))"
    by (simp_all add: SetInt_def GetInt_def)
qed

section \<open>Paths and plain names\<close>

text \<open>For a name that is one component, the path functions do what a flat directory does.\<close>

lemma path_elems_ne: "path_elems s \<noteq> []"
  by (induction s) (auto split: list.splits)

lemma path_elems_plain: "CHR ''/'' \<notin> set n \<Longrightarrow> path_elems n = [n]"
  by (induction n) auto

lemma path_elems_sep: "path_elems (a @ CHR ''/'' # b) = path_elems a @ path_elems b"
  by (induction a) (auto split: list.splits simp: path_elems_ne)

lemma clean_elems_snoc:
  assumes "n \<noteq> []" "n \<noteq> ''.''" "n \<noteq> ''..''"
  shows "clean_elems r up acc (es @ [n]) =
           (case clean_elems r up acc es of (up', acc') \<Rightarrow> (up', acc' @ [n]))"
  using assms by (induction es arbitrary: up acc) auto

lemma plain_name_elems: "plain_name n \<Longrightarrow> path_elems n = [n]"
  by (simp add: plain_name_def path_elems_plain)

text \<open>Joining a plain name to a directory path adds one component to the cleaned path.\<close>

lemma filepath_Join_plain:
  assumes pn: "plain_name n"
  shows "filepath_Join dir n =
           Some (filepath_Clean dir\<lparr>elems := elems (filepath_Clean dir) @ [n]\<rparr>)"
proof (cases "dir = []")
  case True
  have "hd n \<noteq> CHR ''/''" using pn by (cases n) (auto simp: plain_name_def)
  then show ?thesis
    using pn True
    by (simp add: filepath_Join_def filepath_Clean_def plain_name_elems) (simp add: plain_name_def)
next
  case False
  have n: "n \<noteq> []" "n \<noteq> ''.''" "n \<noteq> ''..''" using pn by (simp_all add: plain_name_def)
  have e: "path_elems (dir @ CHR ''/'' # n) = path_elems dir @ [n]"
    by (simp add: path_elems_sep plain_name_elems [OF pn])
  have h: "hd (dir @ CHR ''/'' # n) = hd dir" using False by simp
  show ?thesis
    using False n(1)
    by (simp add: filepath_Join_def filepath_Clean_def e h clean_elems_snoc [OF n] Let_def
        split: prod.splits)
qed

lemma os_OpenFile_plain:
  assumes pn: "plain_name n"
  shows "os_OpenFile d (filepath_Clean dir) (filepath_Join dir n) =
     (case map_of d n of
        None \<Rightarrow> (d @ [(n, File [])], Inr \<lparr>fname = n, pos = 0\<rparr>)
      | Some (File c) \<Rightarrow> (d, Inr \<lparr>fname = n, pos = 0\<rparr>)
      | Some (Dir es) \<Rightarrow> (d, Inl (Err (PathError ''is a directory''))))"
proof -
  have z: "CHR 0x00 \<notin> set n" using pn by (simp add: plain_name_def)
  show ?thesis
    unfolding filepath_Join_plain [OF pn] os_OpenFile_def
    using z by (simp split: option.splits node.splits)
qed

lemma file_at_plain:
  "plain_name n \<Longrightarrow>
     file_at d (path_elems n) = (case map_of d n of Some (File c) \<Rightarrow> Some c | _ \<Rightarrow> None)"
  by (simp add: plain_name_elems)

lemma store_at_plain:
  "plain_name n \<Longrightarrow> store_at d (path_elems n) c = AList.update n (File c) d"
  by (simp add: plain_name_elems)

lemma plain_entry:
  assumes "list_all plain_name (map fst d)" "map_of d n = Some x"
  shows "plain_name n"
proof -
  from assms(2) have "n \<in> fst ` set d" by (metis map_of_eq_None_iff option.distinct(1))
  with assms(1) show ?thesis by (auto simp: list_all_iff)
qed

lemma handles_ok_plain: "handles_ok fm d \<Longrightarrow> map_of d n = Some x \<Longrightarrow> plain_name n"
  unfolding handles_ok_def by (blast intro: plain_entry)

section \<open>FileMgr: handles, \<open>Length\<close> and \<open>Append\<close>\<close>

lemma getFile_File:
  assumes ok: "handles_ok fm d" and f: "map_of d name = Some (File c)"
  shows "\<exists>fm' g. getFile fm d name = (fm', d, Inr g) \<and> fname g = name
            \<and> handles_ok fm' d \<and> blocksize fm' = blocksize fm
            \<and> openFiles fm' name = Some g
            \<and> (\<forall>n. n \<noteq> name \<longrightarrow> openFiles fm' n = openFiles fm n)"
proof (cases "openFiles fm name")
  case None
  have pn: "plain_name name" by (rule handles_ok_plain [OF ok f])
  from None show ?thesis using ok f
    by (auto simp: getFile_def os_OpenFile_plain [OF pn] handles_ok_def)
next
  case (Some g)
  then show ?thesis using ok f
    by (auto simp: getFile_def handles_ok_def)
qed


lemma map_of_append_new: "map_of d name = None \<Longrightarrow> map_of (d @ [(name, x)]) name = Some x"
  by (simp add: map_add_def)

text \<open>Signed division of a size by a positive block size.\<close>

lemma go_div_nat:
  assumes n: "n < 2 ^ 63" and b0: "0 < sint b"
  shows "go_div (of_nat n) b = of_nat (n div unat b)"
    and "sint (go_div (of_nat n) b) = int n div sint b"
proof -
  have sn: "sint (of_nat n :: goint) = int n" by (rule sint_of_nat_goint [OF n])
  have ub: "int (unat b) = sint b" using b0 by (intro unat_nonneg_goint) simp
  have q: "sint (of_nat n :: goint) sdiv sint b = int n div sint b"
    using b0 by (simp add: sn signed_divide_int_def sgn_if)
  have "int n div sint b = int (n div unat b)"
    unfolding ub [symmetric] by (rule zdiv_int [symmetric])
  then have "go_div (of_nat n) b = word_of_int (int (n div unat b))"
    unfolding go_div_def q by (rule arg_cong)
  then show 1: "go_div (of_nat n) b = of_nat (n div unat b)" by simp
  have "n div unat b < 2 ^ 63" using n by (meson div_le_dividend le_less_trans)
  then have "sint (of_nat (n div unat b) :: goint) = int (n div unat b)"
    by (rule sint_of_nat_goint)
  also have "\<dots> = int n div int (unat b)" by (rule zdiv_int)
  finally show "sint (go_div (of_nat n) b) = int n div sint b"
    unfolding 1 ub .
qed

lemma Length_File:
  assumes ok: "handles_ok fm d" and b0: "0 < sint (blocksize fm)"
    and f: "map_of d name = Some (File c)" and n: "length c < 2 ^ 63"
  shows "\<exists>fm'. Length fm d name = (fm', d, Inr (of_nat (length c div unat (blocksize fm))))
           \<and> handles_ok fm' d \<and> blocksize fm' = blocksize fm"
proof -
  from getFile_File [OF ok f] obtain fm' g where
    g: "getFile fm d name = (fm', d, Inr g)" "fname g = name" "handles_ok fm' d"
       "blocksize fm' = blocksize fm" by blast
  have nz: "blocksize fm \<noteq> 0" using b0 by auto
  have pn: "plain_name name" by (rule handles_ok_plain [OF ok f])
  show ?thesis
    using g nz f
    by (simp add: Length_def file_Size_def file_at_plain [OF pn] go_div_nat(1) [OF n b0])
qed


lemma handles_ok_update:
  assumes "handles_ok fm d" "map_of d name = Some (File c)"
  shows "handles_ok fm (AList.update name (File c') d)"
proof -
  have "name \<in> fst ` set d" using assms(2) by (metis map_of_eq_None_iff option.distinct(1))
  then have "map fst (AList.update name (File c') d) = map fst d" by (simp add: update_keys)
  then show ?thesis using assms unfolding handles_ok_def by (auto simp: update_conv')
qed

text \<open>\<open>Append\<close> on a file of \<open>q\<close> complete blocks and a possibly partial one: the new block
  is number \<open>q\<close>, and the file is its first \<open>q\<close> blocks followed by one block of zeros.\<close>

lemma Append_File:
  assumes ok: "handles_ok fm d" and b0: "0 < sint (blocksize fm)"
    and f: "map_of d name = Some (File c)"
    and B: "B = unat (blocksize fm)" and q: "q = length c div B"
    and room: "(q + 1) * B < 2 ^ 63"
  shows "\<exists>fm'. Append fm d name =
            (fm', AList.update name (File (take (q * B) c @ replicate B 0)) d,
             Inr (NewBlockId name (of_nat q)))
           \<and> handles_ok fm' (AList.update name (File (take (q * B) c @ replicate B 0)) d)
           \<and> blocksize fm' = blocksize fm"
proof -
  from getFile_File [OF ok f] obtain fm' g where
    g: "getFile fm d name = (fm', d, Inr g)" "fname g = name" "handles_ok fm' d"
       "blocksize fm' = blocksize fm" by blast
  have nz: "blocksize fm \<noteq> 0" and nn: "\<not> blocksize fm <s 0"
    using b0 by (auto simp: word_sless_alt)
  have Bpos: "0 < B" using b0 unat_nonneg_goint [of "blocksize fm"] unfolding B by linarith
  have qB: "q * B \<le> length c" by (simp add: q)
  have lt: "length c < (q + 1) * B"
    using Bpos by (simp add: q) (metis dividend_less_div_times)
  have n: "length c < 2 ^ 63" using lt room by simp
  have qBb: "q * B < 2 ^ 63" using qB n by simp
  have wB: "blocksize fm = of_nat B" by (simp add: B)
  have dv: "go_div (of_nat (length c)) (blocksize fm) = of_nat q"
    unfolding q B by (rule go_div_nat(1) [OF n b0])
  have prod: "(of_nat q :: goint) * blocksize fm = of_nat (q * B)" by (simp add: wB)
  have s0: "\<not> (of_nat (q * B) :: goint) <s 0"
    unfolding word_sless_alt sint_of_nat_goint [OF qBb] by (simp del: of_nat_mult)
  have u: "unat (of_nat (q * B) :: goint) = q * B" by (rule unat_of_nat_goint [OF qBb])
  have w: "write_at c (q * B) (replicate B 0) = take (q * B) c @ replicate B 0"
    using qB lt by (simp add: write_at_def)
  have r: "\<not> (2 :: nat) ^ 63 \<le> q * B + B" using room by simp
  have ne: "replicate (unat (blocksize fm)) (0 :: byte) \<noteq> []" using Bpos by (simp add: B)
  have pn: "plain_name name" by (rule handles_ok_plain [OF ok f])
  have wa: "file_WriteAt d g (replicate (unat (blocksize fm)) 0) (of_nat q * blocksize fm) =
      (AList.update name (File (take (q * B) c @ replicate B 0)) d, Inr ())"
    unfolding file_WriteAt_def os_pwrite_def prod u g(2) B [symmetric]
      file_at_plain [OF pn] store_at_plain [OF pn]
    using s0 f ne r w by (simp add: B [symmetric])
  have "Append fm d name =
      (fm', AList.update name (File (take (q * B) c @ replicate B 0)) d,
       Inr (NewBlockId name (of_nat q)))"
    using g nz nn f
    by (simp add: Append_def file_Size_def file_at_plain [OF pn] dv Let_def wa file_Sync_def)
  then show ?thesis using handles_ok_update [OF g(3) f] g(4) by simp
qed

lemma getFile_absent_eq:
  assumes ok: "handles_ok fm d" and pn: "plain_name name" and f: "map_of d name = None"
  shows "getFile fm d name = getFile fm (d @ [(name, File [])]) name"
proof -
  have n: "openFiles fm name = None"
  proof (cases "openFiles fm name")
    case (Some g)
    with ok have "\<exists>c. map_of d name = Some (File c)" unfolding handles_ok_def by blast
    with f show ?thesis by simp
  qed simp
  show ?thesis
    using n f
    by (simp add: getFile_def os_OpenFile_plain [OF pn] map_of_append_new del: map_of_append)
qed

lemma map_of_append_keep: "map_of d n = Some x \<Longrightarrow> map_of (d @ e) n = Some x"
  by (simp add: map_add_Some_iff)

lemma handles_ok_append:
  assumes ok: "handles_ok fm d" and pn: "list_all plain_name (map fst e)"
  shows "handles_ok fm (d @ e)"
proof -
  have ents: "list_all plain_name (map fst (d @ e))" using ok pn by (simp add: handles_ok_def)
  have hs: "fname g = n \<and> (\<exists>c. map_of (d @ e) n = Some (File c))"
    if "openFiles fm n = Some g" for n g
  proof -
    from that ok obtain c where "fname g = n" "map_of d n = Some (File c)"
      unfolding handles_ok_def by blast
    then show ?thesis by (auto dest: map_of_append_keep)
  qed
  show ?thesis unfolding handles_ok_def using ents hs by blast
qed

lemma append_times_absent:
  assumes ok: "handles_ok fm d" and pn: "plain_name name" and f: "map_of d name = None"
  shows "append_times (Suc k) fm d name = append_times (Suc k) fm (d @ [(name, File [])]) name"
  by (simp add: Append_def getFile_absent_eq [OF ok pn f])

lemma upt_from: "[j..<Suc (j + k)] = j # [Suc j..<Suc (j + k)]"
  by (simp add: upt_conv_Cons)

lemma append_times_zeros:
  assumes b0: "0 < sint (blocksize fm)" and B: "B = unat (blocksize fm)"
    and ok: "handles_ok fm d"
    and f: "map_of d name = Some (File (replicate (j * B) 0))"
    and room: "(j + k) * B < 2 ^ 63"
  shows "\<exists>fm' d'. append_times k fm d name =
           (fm', d', map (\<lambda>i. (Inr (NewBlockId name (of_nat i)), Inr (of_nat (i + 1)))) [j..<j + k])
         \<and> handles_ok fm' d' \<and> blocksize fm' = blocksize fm
         \<and> map_of d' name = Some (File (replicate ((j + k) * B) 0))"
  using b0 B ok f room
proof (induction k arbitrary: fm d j)
  case 0
  then show ?case by simp
next
  case (Suc k)
  have Bpos: "0 < B"
    using Suc.prems(1) unat_nonneg_goint [of "blocksize fm"] unfolding Suc.prems(2) by linarith
  have q: "j = length (replicate (j * B) (0 :: byte)) div B" using Bpos by simp
  have room1: "(j + 1) * B < 2 ^ 63"
  proof -
    have "(j + 1) * B \<le> (j + Suc k) * B" by (intro mult_le_mono1) simp
    then show ?thesis using Suc.prems(5) by (rule le_less_trans)
  qed
  let ?c1 = "replicate ((j + 1) * B) (0 :: byte)"
  let ?d1 = "AList.update name (File ?c1) d"
  have c1: "take (j * B) (replicate (j * B) (0 :: byte)) @ replicate B 0 = ?c1"
    by (simp add: replicate_add [symmetric] add.commute)
  from Append_File [OF Suc.prems(3) Suc.prems(1) Suc.prems(4) Suc.prems(2) q room1]
  obtain fm1 where a: "Append fm d name = (fm1, ?d1, Inr (NewBlockId name (of_nat j)))"
    "handles_ok fm1 ?d1" "blocksize fm1 = blocksize fm"
    unfolding c1 by blast
  have f1: "map_of ?d1 name = Some (File ?c1)" by (simp add: update_conv')
  have b1: "0 < sint (blocksize fm1)" using Suc.prems(1) a(3) by simp
  have n1: "length ?c1 < 2 ^ 63" using room1 by simp
  from Length_File [OF a(2) b1 f1 n1]
  obtain fm2 where l: "Length fm1 ?d1 name = (fm2, ?d1, Inr (of_nat (j + 1)))"
    "handles_ok fm2 ?d1" "blocksize fm2 = blocksize fm"
    using Bpos a(3) Suc.prems(2) by auto
  have b2: "0 < sint (blocksize fm2)" using Suc.prems(1) l(3) by simp
  have B2: "B = unat (blocksize fm2)" using Suc.prems(2) l(3) by simp
  have f2: "map_of ?d1 name = Some (File (replicate (Suc j * B) 0))" using f1 by simp
  have room2: "(Suc j + k) * B < 2 ^ 63" using Suc.prems(5) by simp
  from Suc.IH [OF b2 B2 l(2) f2 room2]
  obtain fm' d' where r: "append_times k fm2 ?d1 name =
      (fm', d', map (\<lambda>i. (Inr (NewBlockId name (of_nat i)), Inr (of_nat (i + 1)))) [Suc j..<Suc j + k])"
    "handles_ok fm' d'" "blocksize fm' = blocksize fm2"
    "map_of d' name = Some (File (replicate ((Suc j + k) * B) 0))" by blast
  show ?case
    using a(1) l(1) r l(3) by (simp add: upt_from del: upt_Suc)
qed

lemma block_bytes_zeros:
  assumes "i < k"
  shows "block_bytes (replicate (k * B) 0) B i = replicate B (0 :: byte)"
proof -
  have "Suc i * B \<le> k * B" using assms by (intro mult_le_mono1) simp
  then have "B \<le> k * B - i * B" by simp
  then show ?thesis by (simp add: block_bytes_def min_def)
qed

section \<open>FileMgr: \<open>Read\<close>\<close>

lemma slice_store_nil: "valid_slice h s \<Longrightarrow> slice_store h s [] = h"
  by (simp add: slice_store_def valid_slice_def)

lemma io_ReadFull_failure_heap:
  assumes "io_ReadFull d h f b = (h', f', Inl e)" "e \<noteq> Err ErrUnexpectedEOF" "valid_slice h b"
  shows "h' = h"
  using assms
  by (auto simp: io_ReadFull_def Let_def slice_store_nil split: option.splits if_splits)

lemma Read_failure_heap:
  assumes r: "Read fm d h blk p = (fm', d', h', Inl e)" and e: "e \<noteq> Err ErrUnexpectedEOF"
    and v: "valid_slice h (buf p)"
  shows "h' = h"
proof (cases "go_len (buf p) \<noteq> blocksize fm")
  case True
  with r show ?thesis by (simp add: Read_def)
next
  case False
  obtain fm1 d1 g where gf: "getFile fm d (FileName blk) = (fm1, d1, g)"
    by (cases "getFile fm d (FileName blk)") auto
  show ?thesis
  proof (cases g)
    case (Inl x)
    with r False gf show ?thesis by (simp add: Read_def)
  next
    case (Inr f)
    show ?thesis
    proof (cases "file_Seek f (Number blk * blocksize fm1)")
      case (Inl x)
      with r False gf Inr show ?thesis by (simp add: Read_def)
    next
      case sk: (Inr f1)
      obtain h2 f2 r2 where rf: "io_ReadFull d1 h f1 (buf p) = (h2, f2, r2)"
        by (cases "io_ReadFull d1 h f1 (buf p)") auto
      with r False gf Inr sk have "h2 = h'" "r2 = Inl e" by (simp_all add: Read_def)
      with rf e v show ?thesis by (auto dest: io_ReadFull_failure_heap)
    qed
  qed
qed

lemma Read_File:
  assumes ok: "handles_ok fm d" and sz: "go_len (buf p) = blocksize fm"
    and f: "map_of d (FileName blk) = Some (File c)"
    and p0: "0 \<le> sint (Number blk * blocksize fm)"
    and a: "avail = take (slen (buf p)) (drop (unat (Number blk * blocksize fm)) c)"
  shows "\<exists>fm'. Read fm d h blk p =
     (fm', d, slice_store h (buf p) avail,
      if slen (buf p) \<le> length avail then Inr ()
      else if avail = [] then Inl (Err EOF) else Inl (Err ErrUnexpectedEOF))"
proof -
  from getFile_File [OF ok f] obtain fm1 g where
    g: "getFile fm d (FileName blk) = (fm1, d, Inr g)" "fname g = FileName blk"
       "blocksize fm1 = blocksize fm" by blast
  have sk: "file_Seek g (Number blk * blocksize fm) =
      Inr (g\<lparr>pos := unat (Number blk * blocksize fm)\<rparr>)"
    using p0 by (simp add: file_Seek_def word_sless_alt)
  have pn: "plain_name (FileName blk)" by (rule handles_ok_plain [OF ok f])
  show ?thesis
    using sz g f sk
    by (simp add: Read_def Let_def io_ReadFull_def file_at_plain [OF pn] a)
qed

section \<open>FileMgr: construction\<close>

lemma map_of_os_Remove:
  "map_of (fst (os_Remove d e)) n =
     (if n = e \<and> removable (map_of d e) then None else map_of d n)"
  by (auto simp: os_Remove_def removable_def delete_conv' split: option.splits node.splits)

lemma map_of_remove_temps:
  "map_of (remove_temps d es) n =
     (if n \<in> set es \<and> prefix ''temp'' n \<and> removable (map_of d n) then None else map_of d n)"
proof (induction es arbitrary: d)
  case Nil
  then show ?case by simp
next
  case (Cons e es)
  show ?case
  proof (cases "prefix ''temp'' e")
    case False
    then show ?thesis using Cons.IH [of d] by auto
  next
    case True
    have r: "removable (map_of (fst (os_Remove d e)) n) =
        (n \<noteq> e \<and> removable (map_of d n) \<or> n = e \<and> \<not> removable (map_of d e) \<and> removable (map_of d n))"
      by (auto simp: map_of_os_Remove removable_def)
    show ?thesis
      using True Cons.IH [of "fst (os_Remove d e)"]
      by (auto simp: map_of_os_Remove r)
  qed
qed

lemma removable_listed: "removable (map_of d n) \<Longrightarrow> n \<in> set (os_ReadDir d)"
  by (auto simp: removable_def os_ReadDir_def split: option.splits dest: map_of_SomeD intro: rev_image_eqI)

lemma NewFileMgr_Dir:
  "\<exists>d'. NewFileMgr (Some (Dir entries)) dir bsize =
          (Some (Dir d'),
           Inr \<lparr>dbDirectory = dir, blocksize = bsize, isNew = False, openFiles = Map.empty\<rparr>)
        \<and> (\<forall>n. map_of d' n =
              (if prefix ''temp'' n \<and> removable (map_of entries n) then None
               else map_of entries n))"
  by (auto simp: NewFileMgr_def map_of_remove_temps dest: removable_listed)

section \<open>The claims\<close>

subsection \<open>C1: integers round-trip\<close>

text \<open>
  Claim C1. For every offset with \<open>offset + 4 \<le> blocksize\<close> and every signed 32-bit integer
  \<open>v\<close>, the minimum \<open>-2^31\<close> included, \<open>GetInt(offset)\<close> after \<open>SetInt(offset, v)\<close> returns \<open>v\<close>.
  The code does not: \<open>GetInt\<close> converts the stored \<open>uint32\<close> to \<open>int\<close> by zero extension, so
  on a page of four bytes \<open>SetInt(0, -1)\<close> stores \<open>FF FF FF FF\<close> and \<open>GetInt(0)\<close> returns
  \<open>4294967295\<close>.
\<close>

theorem SetInt_GetInt_minus_one:
  "NewPage [] 4 = ([[0, 0, 0, 0]], Inr \<lparr>buf = \<lparr>arr = 0, off = 0, slen = 4, scap = 4\<rparr>\<rparr>)
   \<and> SetInt [[0, 0, 0, 0]] \<lparr>buf = \<lparr>arr = 0, off = 0, slen = 4, scap = 4\<rparr>\<rparr> 0 (- 1)
       = ([[255, 255, 255, 255]], Inr ())
   \<and> GetInt [[255, 255, 255, 255]] \<lparr>buf = \<lparr>arr = 0, off = 0, slen = 4, scap = 4\<rparr>\<rparr> 0
       = Inr 4294967295
   \<and> sint (4294967295 :: goint) = 4294967295"
  by code_simp

subsection \<open>C2: bounds\<close>

text \<open>
  Claim C2. Each of \<open>SetInt\<close>, \<open>SetBytes\<close>, \<open>SetString\<close>, \<open>GetInt\<close>, \<open>GetBytes\<close> and
  \<open>GetString\<close> fails with a bounds error and leaves the buffer as it was whenever the
  addressed range is not inside \<open>[0, blocksize)\<close>, negative offsets included. The check
  \<open>offset + 4 > len(buf)\<close> of the source lets a negative offset through (and an offset within
  four of the largest \<open>int\<close>, where the sum wraps around); the slice expression that follows
  panics. On a page of eight bytes every operation at offset \<open>-1\<close> ends in a run-time
  panic, where an offset past the end (the last line) gets the error the operations return.
\<close>

theorem negative_offset_panics:
  "NewPage [] 8 = ([[0, 0, 0, 0, 0, 0, 0, 0]], Inr \<lparr>buf = \<lparr>arr = 0, off = 0, slen = 8, scap = 8\<rparr>\<rparr>)
  \<and> SetInt [[0, 0, 0, 0, 0, 0, 0, 0]] \<lparr>buf = \<lparr>arr = 0, off = 0, slen = 8, scap = 8\<rparr>\<rparr> (- 1) 42
      = ([[0, 0, 0, 0, 0, 0, 0, 0]], Inl (Panic ''slice bounds out of range''))
  \<and> GetInt [[0, 0, 0, 0, 0, 0, 0, 0]] \<lparr>buf = \<lparr>arr = 0, off = 0, slen = 8, scap = 8\<rparr>\<rparr> (- 1)
      = Inl (Panic ''slice bounds out of range'')
  \<and> SetBytes [[0, 0, 0, 0, 0, 0, 0, 0], [1, 2]] \<lparr>buf = \<lparr>arr = 0, off = 0, slen = 8, scap = 8\<rparr>\<rparr>
       (- 1) \<lparr>arr = 1, off = 0, slen = 2, scap = 2\<rparr>
      = ([[0, 0, 0, 0, 0, 0, 0, 0], [1, 2]], Inl (Panic ''slice bounds out of range''))
  \<and> GetBytes [[0, 0, 0, 0, 0, 0, 0, 0]] \<lparr>buf = \<lparr>arr = 0, off = 0, slen = 8, scap = 8\<rparr>\<rparr> (- 1)
      = ([[0, 0, 0, 0, 0, 0, 0, 0]], Inl (Panic ''slice bounds out of range''))
  \<and> SetString [[0, 0, 0, 0, 0, 0, 0, 0]] \<lparr>buf = \<lparr>arr = 0, off = 0, slen = 8, scap = 8\<rparr>\<rparr> (- 1) ''ab''
      = ([[0, 0, 0, 0, 0, 0, 0, 0], [97, 98]], Inl (Panic ''slice bounds out of range''))
  \<and> GetString [[0, 0, 0, 0, 0, 0, 0, 0]] \<lparr>buf = \<lparr>arr = 0, off = 0, slen = 8, scap = 8\<rparr>\<rparr> (- 1)
      = ([[0, 0, 0, 0, 0, 0, 0, 0]], Inl (Panic ''slice bounds out of range''))
  \<and> SetInt [[0, 0, 0, 0, 0, 0, 0, 0]] \<lparr>buf = \<lparr>arr = 0, off = 0, slen = 8, scap = 8\<rparr>\<rparr>
       9223372036854775807 42
      = ([[0, 0, 0, 0, 0, 0, 0, 0]], Inl (Panic ''slice bounds out of range''))
  \<and> SetInt [[0, 0, 0, 0, 0, 0, 0, 0]] \<lparr>buf = \<lparr>arr = 0, off = 0, slen = 8, scap = 8\<rparr>\<rparr> 5 42
      = ([[0, 0, 0, 0, 0, 0, 0, 0]], Inl (Err (ErrorString ''SetInt: out of bounds'')))"
  by code_simp

subsection \<open>C3: a failing read and the page buffer\<close>

text \<open>
  Claim C3 says that a failing \<open>Read\<close> leaves the page buffer unchanged. It does not when the
  file ends inside the block: with three bytes in the file and blocks of four, \<open>Read\<close> of
  block 0 reports \<open>io.ErrUnexpectedEOF\<close> and the buffer holds the three bytes.
\<close>

theorem Read_partial_block_overwrites_buffer:
  "Read \<lparr>dbDirectory = ''db'', blocksize = 4, isNew = False, openFiles = Map.empty\<rparr>
      [(''f'', File [1, 2, 3])] [[0, 0, 0, 0]] (NewBlockId ''f'' 0)
      \<lparr>buf = \<lparr>arr = 0, off = 0, slen = 4, scap = 4\<rparr>\<rparr>
    = (\<lparr>dbDirectory = ''db'', blocksize = 4, isNew = False,
         openFiles = [''f'' \<mapsto> \<lparr>fname = ''f'', pos = 3\<rparr>]\<rparr>,
       [(''f'', File [1, 2, 3])], [[1, 2, 3, 0]], Inl (Err ErrUnexpectedEOF))"
  by (simp add: Read_def go_len_def getFile_def os_OpenFile_plain plain_name_def NewBlockId_def
      FileName_def Number_def file_Seek_def io_ReadFull_def slice_store_def numeral_3_eq_3)

text \<open>
  Claim C3, amended. A \<open>Read\<close> that fails with anything but \<open>io.ErrUnexpectedEOF\<close> leaves
  the heap, and so the page buffer, unchanged. A \<open>Read\<close> of a block of which the file holds
  fewer than \<open>blocksize\<close> bytes (none, for a block at or past the end) fails: with \<open>io.EOF\<close>
  when it holds none, and then the buffer is unchanged; with \<open>io.ErrUnexpectedEOF\<close> when it
  holds \<open>n > 0\<close>, and then the first \<open>n\<close> bytes of the buffer are those of the file and the
  rest is unchanged. It never fills with zeros and reports success. (\<open>Write\<close>, \<open>Length\<close> and
  \<open>Append\<close> return no heap: they cannot change a page.)
\<close>

theorem Read_failure_page_buffer:
  assumes v: "valid_slice h (buf p)"
  shows "(\<forall>fm' d' h' e. Read fm d h blk p = (fm', d', h', Inl e) \<and> e \<noteq> Err ErrUnexpectedEOF
            \<longrightarrow> h' = h)
       \<and> (handles_ok fm d \<and> go_len (buf p) = blocksize fm
            \<and> map_of d (FileName blk) = Some (File c)
            \<and> 0 \<le> sint (Number blk * blocksize fm)
            \<and> length (drop (unat (Number blk * blocksize fm)) c) < slen (buf p) \<longrightarrow>
          (\<exists>fm' h'. Read fm d h blk p =
              (fm', d, h',
               Inl (Err (if length c \<le> unat (Number blk * blocksize fm) then EOF
                         else ErrUnexpectedEOF)))
            \<and> page_bytes h' p = drop (unat (Number blk * blocksize fm)) c
                 @ drop (length c - unat (Number blk * blocksize fm)) (page_bytes h p)))"
proof (intro conjI allI impI)
  fix fm' d' h' e
  assume "Read fm d h blk p = (fm', d', h', Inl e) \<and> e \<noteq> Err ErrUnexpectedEOF"
  then show "h' = h" using Read_failure_heap [OF _ _ v] by blast
next
  let ?pos = "unat (Number blk * blocksize fm)"
  assume a: "handles_ok fm d \<and> go_len (buf p) = blocksize fm
            \<and> map_of d (FileName blk) = Some (File c)
            \<and> 0 \<le> sint (Number blk * blocksize fm)
            \<and> length (drop ?pos c) < slen (buf p)"
  then have ok: "handles_ok fm d" and sz: "go_len (buf p) = blocksize fm"
    and f: "map_of d (FileName blk) = Some (File c)"
    and p0: "0 \<le> sint (Number blk * blocksize fm)"
    and short: "length (drop ?pos c) < slen (buf p)" by simp_all
  have av: "drop ?pos c = take (slen (buf p)) (drop ?pos c)" using short by simp
  from Read_File [OF ok sz f p0 av, of h] short
  obtain fm' where r: "Read fm d h blk p =
      (fm', d, slice_store h (buf p) (drop ?pos c),
       if drop ?pos c = [] then Inl (Err EOF) else Inl (Err ErrUnexpectedEOF))"
    by (auto simp: not_le)
  have "arr (buf p) < length h" "off (buf p) + slen (buf p) \<le> length (h ! arr (buf p))"
    using v by (simp_all add: valid_slice_def)
  then have "page_bytes (slice_store h (buf p) (drop ?pos c)) p =
      drop ?pos c @ drop (length c - ?pos) (page_bytes h p)"
    using short unfolding page_bytes_def by (subst slice_store_contents) simp_all
  with r show "\<exists>fm' h'. Read fm d h blk p =
              (fm', d, h', Inl (Err (if length c \<le> ?pos then EOF else ErrUnexpectedEOF)))
            \<and> page_bytes h' p = drop ?pos c @ drop (length c - ?pos) (page_bytes h p)"
    by (cases "length c \<le> ?pos") auto
qed

text \<open>Blocks 1 and 2 of a file of six bytes, with blocks of four.\<close>

theorem Read_failure_page_buffer_witness:
  "valid_slice [[9, 9, 9, 9]] (buf \<lparr>buf = \<lparr>arr = 0, off = 0, slen = 4, scap = 4\<rparr>\<rparr>)
   \<and> handles_ok \<lparr>dbDirectory = ''db'', blocksize = 4, isNew = False, openFiles = Map.empty\<rparr>
        [(''f'', File [1, 2, 3, 4, 5, 6])]
   \<and> go_len (buf \<lparr>buf = \<lparr>arr = 0, off = 0, slen = 4, scap = 4\<rparr>\<rparr>) = (4 :: goint)
   \<and> map_of [(''f'', File [1, 2, 3, 4, 5, 6])] (FileName (NewBlockId ''f'' 1))
        = Some (File [1, 2, 3, 4, 5, 6])
   \<and> 0 \<le> sint (Number (NewBlockId ''f'' 1) * (4 :: goint))
   \<and> length (drop (unat (Number (NewBlockId ''f'' 1) * (4 :: goint))) [1, 2, 3, 4, 5, 6 :: byte]) < 4
   \<and> (\<exists>fm' h'. Read \<lparr>dbDirectory = ''db'', blocksize = 4, isNew = False, openFiles = Map.empty\<rparr>
          [(''f'', File [1, 2, 3, 4, 5, 6])] [[9, 9, 9, 9]] (NewBlockId ''f'' 1)
          \<lparr>buf = \<lparr>arr = 0, off = 0, slen = 4, scap = 4\<rparr>\<rparr>
         = (fm', [(''f'', File [1, 2, 3, 4, 5, 6])], h', Inl (Err ErrUnexpectedEOF))
        \<and> page_bytes h' \<lparr>buf = \<lparr>arr = 0, off = 0, slen = 4, scap = 4\<rparr>\<rparr> = [5, 6, 9, 9])
   \<and> 0 \<le> sint (Number (NewBlockId ''f'' 2) * (4 :: goint))
   \<and> length (drop (unat (Number (NewBlockId ''f'' 2) * (4 :: goint))) [1, 2, 3, 4, 5, 6 :: byte]) < 4
   \<and> (\<exists>fm'. Read \<lparr>dbDirectory = ''db'', blocksize = 4, isNew = False, openFiles = Map.empty\<rparr>
          [(''f'', File [1, 2, 3, 4, 5, 6])] [[9, 9, 9, 9]] (NewBlockId ''f'' 2)
          \<lparr>buf = \<lparr>arr = 0, off = 0, slen = 4, scap = 4\<rparr>\<rparr>
         = (fm', [(''f'', File [1, 2, 3, 4, 5, 6])], [[9, 9, 9, 9]], Inl (Err EOF)))"
proof -
  let ?p = "\<lparr>buf = \<lparr>arr = 0, off = 0, slen = 4, scap = 4\<rparr>\<rparr>"
  let ?fm = "\<lparr>dbDirectory = ''db'', blocksize = 4, isNew = False, openFiles = Map.empty\<rparr>"
  let ?d = "[(''f'', File [1, 2, 3, 4, 5, 6])]"
  have h1: "valid_slice [[9, 9, 9, 9]] (buf ?p)" by (simp add: valid_slice_def)
  have h2: "handles_ok ?fm ?d" by (simp add: handles_ok_def plain_name_def)
  have h3: "go_len (buf ?p) = blocksize ?fm" by (simp add: go_len_def)
  have h4: "unat (Number (NewBlockId ''f'' 1) * (4 :: goint)) = 4"
    "unat (Number (NewBlockId ''f'' 2) * (4 :: goint)) = 8"
    by (simp_all add: Number_def NewBlockId_def)
  have h5: "page_bytes [[9, 9, 9, 9]] ?p = [9, 9, 9, 9]"
    by (simp add: page_bytes_def slice_contents_def)
  note t1 = Read_failure_page_buffer [OF h1, of ?fm ?d "NewBlockId ''f'' 1" "[1, 2, 3, 4, 5, 6]"]
  note t2 = Read_failure_page_buffer [OF h1, of ?fm ?d "NewBlockId ''f'' 2" "[1, 2, 3, 4, 5, 6]"]
  have b1: "\<exists>fm' h'. Read ?fm ?d [[9, 9, 9, 9]] (NewBlockId ''f'' 1) ?p
         = (fm', ?d, h', Inl (Err ErrUnexpectedEOF)) \<and> page_bytes h' ?p = [5, 6, 9, 9]"
    using t1 h2 h3 by (simp add: h4 h5 FileName_def NewBlockId_def Number_def)
  from t2 h2 h3 obtain fm' h' where
    r: "Read ?fm ?d [[9, 9, 9, 9]] (NewBlockId ''f'' 2) ?p = (fm', ?d, h', Inl (Err EOF))"
    by (auto simp: h4 h5 FileName_def NewBlockId_def Number_def)
  with t2 have "h' = [[9, 9, 9, 9]]" by blast
  with r have b2: "\<exists>fm'. Read ?fm ?d [[9, 9, 9, 9]] (NewBlockId ''f'' 2) ?p
         = (fm', ?d, [[9, 9, 9, 9]], Inl (Err EOF))" by blast
  show ?thesis
    using b1 b2 h1 h2 h3 by (simp add: h4 FileName_def NewBlockId_def Number_def)
qed

subsection \<open>C4: sequential appends\<close>

text \<open>
  Claim C4. For every \<open>k \<ge> 1\<close>, \<open>Append\<close> called \<open>k\<close> times in sequence on an initially
  empty file (absent, or present with no bytes) returns the block numbers \<open>0, 1, \<dots>, k - 1\<close>
  in that order, \<open>Length\<close> after the \<open>i\<close>-th call is \<open>i\<close>, and every appended block is all
  zero bytes. The file name is one path component (not empty, not \<open>.\<close> or \<open>..\<close>, without
  separator or NUL byte), so that the path joined from it is an entry of the database
  directory; the file manager has a positive block size, and the \<open>k\<close> blocks fit below the
  operating system's largest file offset, \<open>2^63 - 1\<close>.
\<close>

theorem Append_sequence:
  assumes ok: "handles_ok fm d" and pn: "plain_name name" and b0: "0 < sint (blocksize fm)"
    and empty: "map_of d name = None \<or> map_of d name = Some (File [])"
    and k: "1 \<le> k" and room: "k * unat (blocksize fm) < 2 ^ 63"
  shows "\<exists>fm' d' c. append_times k fm d name =
           (fm', d', map (\<lambda>i. (Inr (NewBlockId name (of_nat i)), Inr (of_nat (i + 1)))) [0..<k])
         \<and> map_of d' name = Some (File c) \<and> length c = k * unat (blocksize fm)
         \<and> (\<forall>i<k. block_bytes c (unat (blocksize fm)) i = replicate (unat (blocksize fm)) 0)"
proof -
  let ?B = "unat (blocksize fm)"
  let ?d = "if map_of d name = None then d @ [(name, File [])] else d"
  have ok': "handles_ok fm ?d" using ok pn by (simp add: handles_ok_append)
  have f: "map_of ?d name = Some (File (replicate (0 * ?B) 0))"
    using empty by (auto simp: map_of_append_new simp del: map_of_append)
  have room': "(0 + k) * ?B < 2 ^ 63" using room by simp
  from k obtain k' where k': "k = Suc k'" by (cases k) auto
  have eq: "append_times k fm d name = append_times k fm ?d name"
    using append_times_absent [OF ok pn, of k'] by (simp add: k')
  from append_times_zeros [OF b0 refl ok' f room']
  obtain fm' d' where r: "append_times k fm ?d name =
      (fm', d', map (\<lambda>i. (Inr (NewBlockId name (of_nat i)), Inr (of_nat (i + 1)))) [0..<0 + k])"
    "map_of d' name = Some (File (replicate ((0 + k) * ?B) 0))" by blast
  show ?thesis
    using r by (simp add: eq block_bytes_zeros)
qed

text \<open>Three appends to a new file \<open>multi.db\<close> with blocks of 512 bytes.\<close>

theorem Append_sequence_witness:
  "handles_ok \<lparr>dbDirectory = ''db'', blocksize = 512, isNew = True, openFiles = Map.empty\<rparr> []
   \<and> plain_name ''multi.db''
   \<and> 0 < sint (512 :: goint)
   \<and> (map_of ([] :: directory) ''multi.db'' = None \<or> map_of [] ''multi.db'' = Some (File []))
   \<and> (1 :: nat) \<le> 3 \<and> 3 * unat (512 :: goint) < 2 ^ 63
   \<and> (\<exists>fm' d' c.
        append_times 3 \<lparr>dbDirectory = ''db'', blocksize = 512, isNew = True, openFiles = Map.empty\<rparr>
          [] ''multi.db'' =
         (fm', d', [(Inr (NewBlockId ''multi.db'' 0), Inr 1), (Inr (NewBlockId ''multi.db'' 1), Inr 2),
                    (Inr (NewBlockId ''multi.db'' 2), Inr 3)])
        \<and> map_of d' ''multi.db'' = Some (File c) \<and> length c = 1536
        \<and> (\<forall>i<3. block_bytes c 512 i = replicate 512 0))"
proof -
  let ?fm = "\<lparr>dbDirectory = ''db'', blocksize = 512, isNew = True, openFiles = Map.empty\<rparr>"
  have h1: "handles_ok ?fm []" by (simp add: handles_ok_def)
  have hp: "plain_name ''multi.db''" by (simp add: plain_name_def)
  have h2: "0 < sint (blocksize ?fm)" by simp
  have h3: "map_of ([] :: directory) ''multi.db'' = None \<or> map_of [] ''multi.db'' = Some (File [])"
    by simp
  have h4: "(1 :: nat) \<le> 3" by simp
  have h5: "3 * unat (blocksize ?fm) < 2 ^ 63" by simp
  have u: "[0..<3] = [0, 1, 2]" by (simp add: upt_rec)
  show ?thesis
    using Append_sequence [OF h1 hp h2 h3 h4 h5] h1 hp h2 h4 h5 by (simp add: u)
qed

subsection \<open>C5: byte arrays and strings round-trip\<close>

text \<open>
  Claim C5 says that \<open>GetBytes(offset)\<close> after \<open>SetBytes(offset, b)\<close> returns \<open>b\<close> for every
  \<open>b\<close> and every offset with \<open>offset + 4 + len(b) \<le> blocksize\<close>. Three inputs show what it
  leaves out. At offset \<open>-1\<close> the bound holds and \<open>SetBytes\<close> panics. With \<open>b\<close> the first
  four bytes of the page's own buffer, written at offset 0, the length header overwrites
  \<open>b\<close> before it is copied, and \<open>GetBytes\<close> returns \<open>0 0 0 4\<close> for \<open>9 9 9 9\<close>. With \<open>b\<close> of
  \<open>2^32\<close> bytes the header holds the length modulo \<open>2^32\<close>, and \<open>GetBytes\<close> returns the empty
  slice.
\<close>

theorem SetBytes_negative_offset_aliased_or_long:
  "sint (- 1 :: goint) + 4 + 2 \<le> 8
   \<and> SetBytes [[0, 0, 0, 0, 0, 0, 0, 0], [1, 2]] \<lparr>buf = \<lparr>arr = 0, off = 0, slen = 8, scap = 8\<rparr>\<rparr>
        (- 1) \<lparr>arr = 1, off = 0, slen = 2, scap = 2\<rparr>
      = ([[0, 0, 0, 0, 0, 0, 0, 0], [1, 2]], Inl (Panic ''slice bounds out of range''))
   \<and> SetBytes [[9, 9, 9, 9, 0, 0, 0, 0]] \<lparr>buf = \<lparr>arr = 0, off = 0, slen = 8, scap = 8\<rparr>\<rparr> 0
        \<lparr>arr = 0, off = 0, slen = 4, scap = 8\<rparr>
      = ([[0, 0, 0, 4, 0, 0, 0, 4]], Inr ())
   \<and> GetBytes [[0, 0, 0, 4, 0, 0, 0, 4]] \<lparr>buf = \<lparr>arr = 0, off = 0, slen = 8, scap = 8\<rparr>\<rparr> 0
      = ([[0, 0, 0, 4, 0, 0, 0, 4], [0, 0, 0, 4]], Inr \<lparr>arr = 1, off = 0, slen = 4, scap = 4\<rparr>)
   \<and> slice_contents [[9, 9, 9, 9, 0, 0, 0, 0]] \<lparr>arr = 0, off = 0, slen = 4, scap = 8\<rparr>
      = [9, 9, 9, 9]
   \<and> snd (SetBytes [replicate 4294967300 0, replicate 4294967296 1]
         \<lparr>buf = \<lparr>arr = 0, off = 0, slen = 4294967300, scap = 4294967300\<rparr>\<rparr> 0
         \<lparr>arr = 1, off = 0, slen = 4294967296, scap = 4294967296\<rparr>) = Inr ()
   \<and> snd (GetBytes (fst (SetBytes [replicate 4294967300 0, replicate 4294967296 1]
         \<lparr>buf = \<lparr>arr = 0, off = 0, slen = 4294967300, scap = 4294967300\<rparr>\<rparr> 0
         \<lparr>arr = 1, off = 0, slen = 4294967296, scap = 4294967296\<rparr>))
         \<lparr>buf = \<lparr>arr = 0, off = 0, slen = 4294967300, scap = 4294967300\<rparr>\<rparr> 0)
      = Inr \<lparr>arr = 2, off = 0, slen = 0, scap = 0\<rparr>"
proof -
  let ?H = "[replicate 4294967300 0, replicate 4294967296 1] :: heap"
  let ?P = "\<lparr>buf = \<lparr>arr = 0, off = 0, slen = 4294967300, scap = 4294967300\<rparr>\<rparr>"
  let ?B = "\<lparr>arr = 1, off = 0, slen = 4294967296, scap = 4294967296\<rparr>"
  have small: "sint (- 1 :: goint) + 4 + 2 \<le> 8
   \<and> SetBytes [[0, 0, 0, 0, 0, 0, 0, 0], [1, 2]] \<lparr>buf = \<lparr>arr = 0, off = 0, slen = 8, scap = 8\<rparr>\<rparr>
        (- 1) \<lparr>arr = 1, off = 0, slen = 2, scap = 2\<rparr>
      = ([[0, 0, 0, 0, 0, 0, 0, 0], [1, 2]], Inl (Panic ''slice bounds out of range''))
   \<and> SetBytes [[9, 9, 9, 9, 0, 0, 0, 0]] \<lparr>buf = \<lparr>arr = 0, off = 0, slen = 8, scap = 8\<rparr>\<rparr> 0
        \<lparr>arr = 0, off = 0, slen = 4, scap = 8\<rparr>
      = ([[0, 0, 0, 4, 0, 0, 0, 4]], Inr ())
   \<and> GetBytes [[0, 0, 0, 4, 0, 0, 0, 4]] \<lparr>buf = \<lparr>arr = 0, off = 0, slen = 8, scap = 8\<rparr>\<rparr> 0
      = ([[0, 0, 0, 4, 0, 0, 0, 4], [0, 0, 0, 4]], Inr \<lparr>arr = 1, off = 0, slen = 4, scap = 4\<rparr>)
   \<and> slice_contents [[9, 9, 9, 9, 0, 0, 0, 0]] \<lparr>arr = 0, off = 0, slen = 4, scap = 8\<rparr>
      = [9, 9, 9, 9]"
    by code_simp
  have v: "valid_slice ?H (buf ?P)" by (simp add: valid_slice_def)
  have vb: "valid_slice ?H ?B" by (simp add: valid_slice_def)
  have k0: "0 \<le> sint (0 :: goint)" by simp
  have fit: "sint (0 :: goint) + 4 + int (slen ?B) \<le> int (slen (buf ?P))" by simp
  have m: "unat (ucast (go_len ?B) :: uint32) = 0" by (simp add: go_len_def)
  note r = SetBytes_GetBytes [OF v vb k0 fit]
  from r(2,3) have "snd (GetBytes (fst (SetBytes ?H ?P 0 ?B)) ?P 0)
      = Inr \<lparr>arr = 2, off = 0, slen = 0, scap = 0\<rparr>"
    by (simp add: m del: One_nat_def)
  with small r(1) show ?thesis by (simp del: One_nat_def)
qed

text \<open>
  Claim C5, amended. For every offset with \<open>0 \<le> offset\<close> and
  \<open>offset + 4 + len(b) \<le> blocksize\<close> and every byte slice \<open>b\<close> (the empty one included) of
  fewer than \<open>2^32\<close> bytes that shares no byte with the four header bytes being written,
  \<open>GetBytes(offset)\<close> after \<open>SetBytes(offset, b)\<close> returns a slice over a newly allocated
  array (its address is the first one past the heap that \<open>SetBytes\<close> left, so it is not the
  page's buffer) that holds the bytes of \<open>b\<close>; and for every string \<open>s\<close> of fewer than
  \<open>2^32\<close> bytes that fits likewise, \<open>GetString(offset)\<close> after \<open>SetString(offset, s)\<close>
  returns \<open>s\<close>.
\<close>

theorem SetBytes_GetBytes_round_trip:
  assumes v: "valid_slice h (buf p)" and k0: "0 \<le> sint offset"
  shows "(valid_slice h b \<and> sint offset + 4 + int (slen b) \<le> int (slen (buf p))
            \<and> slen b < 2 ^ 32 \<and> apart b (buf p) (unat offset) 4 \<longrightarrow>
          (\<exists>h1. SetBytes h p offset b = (h1, Inr ()) \<and> arr (buf p) < length h1 \<and>
             GetBytes h1 p offset =
               (h1 @ [slice_contents h b],
                Inr \<lparr>arr = length h1, off = 0, slen = slen b, scap = slen b\<rparr>)))
       \<and> (sint offset + 4 + int (length s) \<le> int (slen (buf p)) \<and> length s < 2 ^ 32 \<longrightarrow>
          (\<exists>h1 h2. SetString h p offset s = (h1, Inr ()) \<and> GetString h1 p offset = (h2, Inr s)))"
proof (intro conjI impI)
  assume a: "valid_slice h b \<and> sint offset + 4 + int (slen b) \<le> int (slen (buf p))
            \<and> slen b < 2 ^ 32 \<and> apart b (buf p) (unat offset) 4"
  then have vb: "valid_slice h b" and fit: "sint offset + 4 + int (slen b) \<le> int (slen (buf p))"
    and small: "slen b < 2 ^ 32" and ap: "apart b (buf p) (unat offset) 4" by simp_all
  have "arr (buf p) < length h" using v by (simp add: valid_slice_def)
  with SetBytes_GetBytes_apart [OF v vb k0 fit small ap]
  show "\<exists>h1. SetBytes h p offset b = (h1, Inr ()) \<and> arr (buf p) < length h1 \<and>
             GetBytes h1 p offset =
               (h1 @ [slice_contents h b],
                Inr \<lparr>arr = length h1, off = 0, slen = slen b, scap = slen b\<rparr>)"
    by auto
next
  assume "sint offset + 4 + int (length s) \<le> int (slen (buf p)) \<and> length s < 2 ^ 32"
  then have fit: "sint offset + 4 + int (length s) \<le> int (slen (buf p))"
    and small: "length s < 2 ^ 32" by simp_all
  from SetString_GetString [OF v k0 fit small]
  show "\<exists>h1 h2. SetString h p offset s = (h1, Inr ()) \<and> GetString h1 p offset = (h2, Inr s)"
    by blast
qed

text \<open>The string of \<open>main.go\<close>, \<open>abcdefghijklm\<close> at offset 88 of a page of 400 bytes, and three
  bytes at the same offset.\<close>

theorem SetBytes_GetBytes_round_trip_witness:
  "valid_slice [replicate 400 0, [1, 2, 3]] (buf \<lparr>buf = \<lparr>arr = 0, off = 0, slen = 400, scap = 400\<rparr>\<rparr>)
   \<and> 0 \<le> sint (88 :: goint)
   \<and> valid_slice [replicate 400 0, [1, 2, 3]] \<lparr>arr = 1, off = 0, slen = 3, scap = 3\<rparr>
   \<and> sint (88 :: goint) + 4 + int (slen \<lparr>arr = 1, off = 0, slen = 3, scap = 3\<rparr>) \<le> 400
   \<and> slen \<lparr>arr = 1, off = 0, slen = 3, scap = 3\<rparr> < 2 ^ 32
   \<and> apart \<lparr>arr = 1, off = 0, slen = 3, scap = 3\<rparr> \<lparr>arr = 0, off = 0, slen = 400, scap = 400\<rparr> 88 4
   \<and> (\<exists>h1. SetBytes [replicate 400 0, [1, 2, 3]] \<lparr>buf = \<lparr>arr = 0, off = 0, slen = 400, scap = 400\<rparr>\<rparr>
               88 \<lparr>arr = 1, off = 0, slen = 3, scap = 3\<rparr> = (h1, Inr ())
          \<and> GetBytes h1 \<lparr>buf = \<lparr>arr = 0, off = 0, slen = 400, scap = 400\<rparr>\<rparr> 88
              = (h1 @ [[1, 2, 3]], Inr \<lparr>arr = length h1, off = 0, slen = 3, scap = 3\<rparr>))
   \<and> sint (88 :: goint) + 4 + int (length ''abcdefghijklm'') \<le> 400
   \<and> length ''abcdefghijklm'' < 2 ^ 32
   \<and> (\<exists>h1 h2. SetString [replicate 400 0, [1, 2, 3]]
                 \<lparr>buf = \<lparr>arr = 0, off = 0, slen = 400, scap = 400\<rparr>\<rparr> 88 ''abcdefghijklm'' = (h1, Inr ())
          \<and> GetString h1 \<lparr>buf = \<lparr>arr = 0, off = 0, slen = 400, scap = 400\<rparr>\<rparr> 88
              = (h2, Inr ''abcdefghijklm''))"
proof -
  let ?h = "[replicate 400 0, [1, 2, 3]] :: heap"
  let ?p = "\<lparr>buf = \<lparr>arr = 0, off = 0, slen = 400, scap = 400\<rparr>\<rparr>"
  let ?b = "\<lparr>arr = 1, off = 0, slen = 3, scap = 3\<rparr>"
  have h1: "valid_slice ?h (buf ?p)" by (simp add: valid_slice_def)
  have h2: "0 \<le> sint (88 :: goint)" by simp
  have h3: "valid_slice ?h ?b" by (simp add: valid_slice_def)
  have h4: "apart ?b (buf ?p) (unat (88 :: goint)) 4" by (simp add: apart_def)
  have c: "slice_contents ?h ?b = [1, 2, 3]" by (simp add: slice_contents_def)
  show ?thesis
    using SetBytes_GetBytes_round_trip [OF h1 h2, of ?b "''abcdefghijklm''"] h1 h2 h3 h4
    by (simp add: c del: One_nat_def) blast
qed

subsection \<open>C6: pages of the wrong size\<close>

text \<open>
  Claim C6. For every block and every page whose buffer length differs from the block
  size, \<open>Read\<close> and \<open>Write\<close> fail, and they fail at once: the file manager, the directory and
  the heap are what they were, so no file was opened, created, positioned, read or written.
\<close>

theorem Read_Write_size_mismatch:
  assumes "go_len (buf p) \<noteq> blocksize fm"
  shows "Read fm d h blk p =
           (fm, d, h, Inl (Err (ErrorString ''Read: page size != blocksize'')))
       \<and> Write fm d h blk p =
           (fm, d, Inl (Err (ErrorString ''Write: page size != blocksize'')))"
  using assms by (simp add: Read_def Write_def)

text \<open>A page of 256 bytes with blocks of 512, as in the tests.\<close>

theorem Read_Write_size_mismatch_witness:
  "go_len (buf \<lparr>buf = \<lparr>arr = 0, off = 0, slen = 256, scap = 256\<rparr>\<rparr>) \<noteq> (512 :: goint)
   \<and> Read \<lparr>dbDirectory = ''db'', blocksize = 512, isNew = True, openFiles = Map.empty\<rparr> []
        [replicate 256 0] (NewBlockId ''test.db'' 0) \<lparr>buf = \<lparr>arr = 0, off = 0, slen = 256, scap = 256\<rparr>\<rparr>
      = (\<lparr>dbDirectory = ''db'', blocksize = 512, isNew = True, openFiles = Map.empty\<rparr>, [],
         [replicate 256 0], Inl (Err (ErrorString ''Read: page size != blocksize'')))
   \<and> Write \<lparr>dbDirectory = ''db'', blocksize = 512, isNew = True, openFiles = Map.empty\<rparr> []
        [replicate 256 0] (NewBlockId ''test.db'' 0) \<lparr>buf = \<lparr>arr = 0, off = 0, slen = 256, scap = 256\<rparr>\<rparr>
      = (\<lparr>dbDirectory = ''db'', blocksize = 512, isNew = True, openFiles = Map.empty\<rparr>, [],
         Inl (Err (ErrorString ''Write: page size != blocksize'')))"
proof -
  let ?p = "\<lparr>buf = \<lparr>arr = 0, off = 0, slen = 256, scap = 256\<rparr>\<rparr>"
  let ?fm = "\<lparr>dbDirectory = ''db'', blocksize = 512, isNew = True, openFiles = Map.empty\<rparr>"
  have h: "go_len (buf ?p) \<noteq> blocksize ?fm" by (simp add: go_len_def)
  show ?thesis
    using Read_Write_size_mismatch [OF h, of "[]" "[replicate 256 0]" "NewBlockId ''test.db'' 0"] h
    by simp
qed

subsection \<open>C7: the length of a file in blocks\<close>




subsection \<open>C8: temporary files at construction\<close>

text \<open>
  Claim C8 says that construction deletes every entry whose name begins with \<open>temp\<close>. The
  error of \<open>os.Remove\<close> is ignored, and \<open>os.Remove\<close> does not remove a directory that has
  entries: \<open>tempdir\<close>, holding one file, is still there afterwards.
\<close>

theorem NewFileMgr_keeps_nonempty_temp_directory:
  "NewFileMgr (Some (Dir [(''tempdir'', Dir [(''x'', File [])]), (''keep.db'', File [])])) ''db'' 400
    = (Some (Dir [(''tempdir'', Dir [(''x'', File [])]), (''keep.db'', File [])]),
       Inr \<lparr>dbDirectory = ''db'', blocksize = 400, isNew = False, openFiles = Map.empty\<rparr>)"
  by (simp add: NewFileMgr_def os_ReadDir_def os_Remove_def)

text \<open>
  Claim C8, amended. Constructing a file manager over an existing directory deletes every
  immediate entry whose name begins with \<open>temp\<close> and that is a file or an empty directory,
  and leaves every other entry as it was; a directory holding \<open>temp1.dat\<close>, \<open>tempX\<close> and
  \<open>keep.db\<close> holds only \<open>keep.db\<close> afterwards.
\<close>

theorem NewFileMgr_removes_temp_entries:
  "\<exists>d'. NewFileMgr (Some (Dir entries)) dir bsize =
          (Some (Dir d'),
           Inr \<lparr>dbDirectory = dir, blocksize = bsize, isNew = False, openFiles = Map.empty\<rparr>)
        \<and> (\<forall>n. map_of d' n =
              (if prefix ''temp'' n \<and> removable (map_of entries n) then None
               else map_of entries n))"
  by (rule NewFileMgr_Dir)

text \<open>The directory of the example.\<close>

theorem NewFileMgr_removes_temp_entries_witness:
  "\<exists>d'. NewFileMgr (Some (Dir [(''temp1.dat'', File [1]), (''tempX'', File []), (''keep.db'', File [7])]))
           ''db'' 400 =
          (Some (Dir d'),
           Inr \<lparr>dbDirectory = ''db'', blocksize = 400, isNew = False, openFiles = Map.empty\<rparr>)
        \<and> map_of d' ''temp1.dat'' = None \<and> map_of d' ''tempX'' = None
        \<and> map_of d' ''keep.db'' = Some (File [7])
        \<and> (\<forall>n. n \<noteq> ''keep.db'' \<longrightarrow> map_of d' n = None)"
  using NewFileMgr_removes_temp_entries
    [of "[(''temp1.dat'', File [1]), (''tempX'', File []), (''keep.db'', File [7])]" "''db''" 400]
  by (auto simp: removable_def)

subsection \<open>C10: SetInt keeps the low 32 bits\<close>

text \<open>
  Claim C10. \<open>SetInt\<close> accepts any \<open>int\<close> and stores its value modulo \<open>2^32\<close>: the four bytes
  written are the big-endian bytes of the low 32 bits, and \<open>GetInt\<close> reads back the value
  modulo \<open>2^32\<close>. Whatever the heap, the page and the offset, a value that \<open>GetInt\<close> returns
  lies in \<open>[0, 2^32)\<close>.
\<close>

theorem SetInt_truncates_GetInt_nonnegative:
  assumes v: "valid_slice h (buf p)" and k0: "0 \<le> sint offset"
    and kn: "sint offset + 4 \<le> int (slen (buf p))"
  shows "(\<exists>h' r. SetInt h p offset x = (h', Inr ())
            \<and> page_bytes h' p = take (unat offset) (page_bytes h p) @ be_bytes (ucast x)
                 @ drop (unat offset + 4) (page_bytes h p)
            \<and> GetInt h' p offset = Inr r \<and> sint r = sint x mod 2 ^ 32)
       \<and> (\<forall>g q i r. GetInt g q i = Inr r \<longrightarrow> 0 \<le> sint r \<and> sint r < 2 ^ 32)"
proof -
  have s: "SetInt h p offset x = (fst (SetInt h p offset x), Inr ())"
    by (simp add: SetInt_valid_offset [OF v k0 kn])
  have "GetInt (fst (SetInt h p offset x)) p offset = Inr (ucast (ucast x :: uint32))"
    by (rule SetInt_GetInt [OF v k0 kn])
  with s page_bytes_SetInt [OF v k0 kn, of x] sint_low32 [of x]
  have "\<exists>h' r. SetInt h p offset x = (h', Inr ())
            \<and> page_bytes h' p = take (unat offset) (page_bytes h p) @ be_bytes (ucast x)
                 @ drop (unat offset + 4) (page_bytes h p)
            \<and> GetInt h' p offset = Inr r \<and> sint r = sint x mod 2 ^ 32"
    by blast
  then show ?thesis using GetInt_range by blast
qed

text \<open>\<open>-1\<close> is stored as \<open>FF FF FF FF\<close> and read back as \<open>2^32 - 1\<close>.\<close>

theorem SetInt_truncates_GetInt_nonnegative_witness:
  "valid_slice [[0, 0, 0, 0]] (buf \<lparr>buf = \<lparr>arr = 0, off = 0, slen = 4, scap = 4\<rparr>\<rparr>)
   \<and> 0 \<le> sint (0 :: goint)
   \<and> sint (0 :: goint) + 4 \<le> int (slen (buf \<lparr>buf = \<lparr>arr = 0, off = 0, slen = 4, scap = 4\<rparr>\<rparr>))
   \<and> (\<exists>h' r. SetInt [[0, 0, 0, 0]] \<lparr>buf = \<lparr>arr = 0, off = 0, slen = 4, scap = 4\<rparr>\<rparr> 0 (- 1)
                 = (h', Inr ())
          \<and> page_bytes h' \<lparr>buf = \<lparr>arr = 0, off = 0, slen = 4, scap = 4\<rparr>\<rparr> = [255, 255, 255, 255]
          \<and> GetInt h' \<lparr>buf = \<lparr>arr = 0, off = 0, slen = 4, scap = 4\<rparr>\<rparr> 0 = Inr r
          \<and> sint r = 4294967295 \<and> 0 \<le> sint r \<and> sint r < 2 ^ 32)"
proof -
  let ?p = "\<lparr>buf = \<lparr>arr = 0, off = 0, slen = 4, scap = 4\<rparr>\<rparr>"
  have h1: "valid_slice [[0, 0, 0, 0]] (buf ?p)" by (simp add: valid_slice_def)
  have h2: "0 \<le> sint (0 :: goint)" by simp
  have h3: "sint (0 :: goint) + 4 \<le> int (slen (buf ?p))" by simp
  have b: "be_bytes (ucast (- 1 :: goint)) = [255, 255, 255, 255]" by code_simp
  have m: "sint (- 1 :: goint) mod 2 ^ 32 = 4294967295" by simp
  have pb: "page_bytes [[0, 0, 0, 0]] ?p = [0, 0, 0, 0]"
    by (simp add: page_bytes_def slice_contents_def)
  from SetInt_truncates_GetInt_nonnegative [OF h1 h2 h3, of "- 1"]
  obtain h' r where r: "SetInt [[0, 0, 0, 0]] ?p 0 (- 1) = (h', Inr ())"
    "page_bytes h' ?p = take (unat (0 :: goint)) (page_bytes [[0, 0, 0, 0]] ?p)
       @ be_bytes (ucast (- 1 :: goint)) @ drop (unat (0 :: goint) + 4) (page_bytes [[0, 0, 0, 0]] ?p)"
    "GetInt h' ?p 0 = Inr r" "sint r = sint (- 1 :: goint) mod 2 ^ 32"
    and g: "\<forall>g q i r. GetInt g q i = Inr r \<longrightarrow> 0 \<le> sint r \<and> sint r < 2 ^ 32"
    by blast
  have "page_bytes h' ?p = [255, 255, 255, 255]" unfolding r(2) b pb by simp
  moreover have "sint r = 4294967295" unfolding r(4) m ..
  moreover have "0 \<le> sint r \<and> sint r < 2 ^ 32" using g r(3) by blast
  ultimately show ?thesis using r(1,3) h1 h2 h3 by blast
qed

end
